theory Spec2Isabelle
  imports Complex_Main "HOL-Library.Log_Nat"
begin

section \<open>Python values and exceptions\<close>

text \<open>
  The exception classes that the functions of \<^verbatim>\<open>mylib.py\<close> raise themselves or
  receive from the interpreter and the standard library. \<^verbatim>\<open>IndexError\<close> is a
  \<^verbatim>\<open>LookupError\<close>, not a \<^verbatim>\<open>ValueError\<close>; no class listed here is a subclass
  of another one listed here, so an \<^verbatim>\<open>except ValueError\<close> clause catches exactly
  the constructor \<open>ValueError\<close>.
\<close>

datatype pyexc = TypeError | ValueError | IndexError | OverflowError | ZeroDivisionError | OSError

text \<open>Sequencing of computations that may raise: the first exception wins.\<close>

fun then_exc :: "pyexc + 'a \<Rightarrow> ('a \<Rightarrow> pyexc + 'b) \<Rightarrow> pyexc + 'b" where
  "then_exc (Inl e) f = Inl e"
| "then_exc (Inr x) f = f x"

section \<open>Binary64 floating point\<close>

text \<open>
  A Python \<^verbatim>\<open>float\<close> is an IEEE 754 binary64 number. \<open>Fin m e\<close> is the finite
  number \<open>m * 2 ^ e\<close> in the format's own normal form: \<open>2 ^ 52 \<le> \<bar>m\<bar> < 2 ^ 53\<close>
  with \<open>- 1074 \<le> e \<le> 971\<close> for a normal number, \<open>\<bar>m\<bar> < 2 ^ 52\<close> with
  \<open>e = - 1074\<close> for a subnormal one. Zero is \<open>Fin 0 0\<close>; its sign is not
  represented. Every operation is the exact operation followed by rounding to
  nearest, ties to even.
\<close>

datatype pyfloat = Fin int int | PInf | NInf | NaN

definition rne_div :: "int \<Rightarrow> int \<Rightarrow> int" where
  \<comment> \<open>the integer nearest to \<open>n / d\<close>, ties to even, for \<open>0 \<le> n\<close> and \<open>0 < d\<close>\<close>
  "rne_div n d =
     (let k = n div d; r = n mod d
      in if 2 * r < d then k else if d < 2 * r then k + 1
         else if even k then k else k + 1)"

definition ilog2_frac :: "int \<Rightarrow> int \<Rightarrow> int" where
  \<comment> \<open>\<open>\<lfloor>log\<^sub>2 (n / d)\<rfloor>\<close> for \<open>0 < n\<close> and \<open>0 < d\<close>\<close>
  "ilog2_frac n d =
     (let k = bitlen n - bitlen d
      in if (if 0 \<le> k then d * 2 ^ nat k \<le> n else d \<le> n * 2 ^ nat (- k)) then k else k - 1)"

definition round_pos :: "int \<Rightarrow> int \<Rightarrow> (int \<times> int) option" where
  \<comment> \<open>the binary64 number nearest to \<open>n / d > 0\<close>; \<open>None\<close> when it overflows\<close>
  "round_pos n d =
     (let e = max (- 1074) (ilog2_frac n d - 52);
          m = (if e \<le> 0 then rne_div (n * 2 ^ nat (- e)) d else rne_div n (d * 2 ^ nat e));
          e' = (if m = 2 ^ 53 then e + 1 else e);
          m' = (if m = 2 ^ 53 then 2 ^ 52 else m)
      in if 971 < e' then None else Some (m', e'))"

definition round_frac :: "int \<Rightarrow> int \<Rightarrow> pyfloat" where
  \<comment> \<open>the binary64 number nearest to \<open>n / d\<close>, for \<open>0 < d\<close>\<close>
  "round_frac n d =
     (if n = 0 then Fin 0 0
      else case round_pos \<bar>n\<bar> d of
             None \<Rightarrow> (if 0 < n then PInf else NInf)
           | Some (m, e) \<Rightarrow> Fin (sgn n * m) e)"

definition round_scaled :: "int \<Rightarrow> int \<Rightarrow> pyfloat" where
  \<comment> \<open>the binary64 number nearest to \<open>M * 2 ^ e\<close>\<close>
  "round_scaled M e =
     (if 0 \<le> e then round_frac (M * 2 ^ nat e) 1 else round_frac M (2 ^ nat (- e)))"

definition float_of_decimal :: "int \<Rightarrow> nat \<Rightarrow> pyfloat" where
  \<comment> \<open>the float that the decimal text of \<open>n / 10 ^ k\<close> denotes, as a literal or through \<^verbatim>\<open>float()\<close>\<close>
  "float_of_decimal n k = round_frac n (10 ^ k)"

definition float_of_int :: "int \<Rightarrow> pyexc + pyfloat" where
  \<comment> \<open>the conversion of an \<^verbatim>\<open>int\<close> operand in mixed arithmetic: \<^verbatim>\<open>int too large to convert to float\<close>\<close>
  "float_of_int i =
     (case round_frac i 1 of
        PInf \<Rightarrow> Inl OverflowError
      | NInf \<Rightarrow> Inl OverflowError
      | x \<Rightarrow> Inr x)"

fun fneg :: "pyfloat \<Rightarrow> pyfloat" where
  "fneg (Fin m e) = Fin (- m) e"
| "fneg PInf = NInf"
| "fneg NInf = PInf"
| "fneg NaN = NaN"

fun fadd :: "pyfloat \<Rightarrow> pyfloat \<Rightarrow> pyfloat" where
  "fadd (Fin m1 e1) (Fin m2 e2) =
     (if m2 = 0 then round_scaled m1 e1
      else if m1 = 0 then round_scaled m2 e2
      else let e = min e1 e2 in round_scaled (m1 * 2 ^ nat (e1 - e) + m2 * 2 ^ nat (e2 - e)) e)"
| "fadd NaN y = NaN"
| "fadd x NaN = NaN"
| "fadd PInf NInf = NaN"
| "fadd NInf PInf = NaN"
| "fadd PInf y = PInf"
| "fadd NInf y = NInf"
| "fadd x PInf = PInf"
| "fadd x NInf = NInf"

definition fsub :: "pyfloat \<Rightarrow> pyfloat \<Rightarrow> pyfloat" where
  "fsub x y = fadd x (fneg y)"

fun fsign :: "pyfloat \<Rightarrow> int" where
  "fsign (Fin m e) = sgn m"
| "fsign PInf = 1"
| "fsign NInf = - 1"
| "fsign NaN = 0"

fun fmul :: "pyfloat \<Rightarrow> pyfloat \<Rightarrow> pyfloat" where
  "fmul (Fin m1 e1) (Fin m2 e2) = round_scaled (m1 * m2) (e1 + e2)"
| "fmul NaN y = NaN"
| "fmul x NaN = NaN"
| "fmul x y =
     (let s = fsign x * fsign y in if s = 0 then NaN else if 0 < s then PInf else NInf)"

fun ftruediv :: "pyfloat \<Rightarrow> pyfloat \<Rightarrow> pyexc + pyfloat" where
  "ftruediv x (Fin m2 e2) =
     (if m2 = 0 then Inl ZeroDivisionError
      else case x of
             Fin m1 e1 \<Rightarrow>
               Inr (if e2 \<le> e1 then round_frac (sgn m2 * m1 * 2 ^ nat (e1 - e2)) \<bar>m2\<bar>
                    else round_frac (sgn m2 * m1) (\<bar>m2\<bar> * 2 ^ nat (e2 - e1)))
           | NaN \<Rightarrow> Inr NaN
           | PInf \<Rightarrow> Inr (if 0 < m2 then PInf else NInf)
           | NInf \<Rightarrow> Inr (if 0 < m2 then NInf else PInf))"
| "ftruediv x NaN = Inr NaN"
| "ftruediv (Fin m1 e1) y = Inr (Fin 0 0)"
| "ftruediv x y = Inr NaN"

fun int_of_float :: "pyfloat \<Rightarrow> pyexc + int" where
  \<comment> \<open>\<^verbatim>\<open>int(x)\<close>: the integral part; no integer for an infinity or a NaN\<close>
  "int_of_float (Fin m e) =
     Inr (if 0 \<le> e then m * 2 ^ nat e else sgn m * (\<bar>m\<bar> div 2 ^ nat (- e)))"
| "int_of_float NaN = Inl ValueError"
| "int_of_float x = Inl OverflowError"

definition pow2 :: "int \<Rightarrow> rat" where
  "pow2 e = (if 0 \<le> e then 2 ^ nat e else 1 / 2 ^ nat (- e))"

fun valof :: "pyfloat \<Rightarrow> rat" where
  \<comment> \<open>the number a finite float stands for\<close>
  "valof (Fin m e) = of_int m * pow2 e"
| "valof x = 0"

definition round_toward_zero :: "rat \<Rightarrow> int" where
  \<comment> \<open>the specification's rounding: the fractional part is dropped\<close>
  "round_toward_zero q = (if 0 \<le> q then \<lfloor>q\<rfloor> else - \<lfloor>- q\<rfloor>)"

section \<open>Text\<close>

text \<open>
  A Python \<^verbatim>\<open>str\<close> is a sequence of Unicode code points. What the functions of
  \<^verbatim>\<open>mylib.py\<close> and the library do with a code point depends on the code point itself
  when it is below 256, and beyond that only on whether the Unicode database has it as
  a decimal digit (the category \<^verbatim>\<open>Nd\<close>) and on its value. \<open>Ch c\<close> is a code point
  below 256; the only decimal digits there are \<^verbatim>\<open>0\<close> to \<^verbatim>\<open>9\<close>. \<open>Nd n\<close> is the decimal
  digit number \<open>n\<close>, in the order of the code points, of those from 256 on: they come in
  runs of ten, zero to nine, so that the value of \<open>Nd n\<close> is \<open>n mod 10\<close>, and the first
  run, \<open>Nd 0\<close> to \<open>Nd 9\<close>, is the ARABIC-INDIC digits U+0660 to U+0669. \<open>Uc n\<close> is any
  other code point from 256 on, number \<open>n\<close> of them.
\<close>

datatype pychar = Ch char | Nd nat | Uc nat

type_synonym pystr = "pychar list"

definition latin :: "string \<Rightarrow> pystr" where
  \<comment> \<open>a text of code points below 256\<close>
  "latin s = map Ch s"

section \<open>Dynamically typed arguments\<close>

text \<open>
  The argument of \<^verbatim>\<open>anyToSecs\<close>, \<^verbatim>\<open>secsToMillis\<close> and \<^verbatim>\<open>strfTime\<close> is tested
  with \<^verbatim>\<open>isinstance\<close>. \<^verbatim>\<open>bool\<close> is a subclass of \<^verbatim>\<open>int\<close>, with \<^verbatim>\<open>True == 1\<close>
  and \<^verbatim>\<open>False == 0\<close>. \<open>PyOther r\<close> is an object of any other class, whose
  \<^verbatim>\<open>str()\<close> is \<open>r\<close>.
\<close>

datatype pyval = PyInt int | PyBool bool | PyFloat pyfloat | PyStr pystr | PyNone | PyOther pystr

fun isinstance_int :: "pyval \<Rightarrow> bool" where
  "isinstance_int (PyInt i) = True"
| "isinstance_int (PyBool b) = True"
| "isinstance_int v = False"

fun isinstance_float :: "pyval \<Rightarrow> bool" where
  "isinstance_float (PyFloat x) = True"
| "isinstance_float v = False"

fun isinstance_str :: "pyval \<Rightarrow> bool" where
  "isinstance_str (PyStr s) = True"
| "isinstance_str v = False"

fun int_value :: "pyval \<Rightarrow> int" where
  \<comment> \<open>the integer that an instance of \<^verbatim>\<open>int\<close> is in arithmetic\<close>
  "int_value (PyInt i) = i"
| "int_value (PyBool b) = (if b then 1 else 0)"
| "int_value v = 0"

definition f1000 :: pyfloat where
  \<comment> \<open>the literal \<^verbatim>\<open>1000.0\<close>\<close>
  "f1000 = Fin 8796093022208000 (- 43)"

definition fzero :: pyfloat where
  \<comment> \<open>the literal \<^verbatim>\<open>0.0\<close>\<close>
  "fzero = Fin 0 0"

section \<open>Conversions between milliseconds and seconds\<close>

definition millisToSecs :: "int \<Rightarrow> pyfloat \<Rightarrow> pyexc + pyfloat" where
  \<comment> \<open>\<^verbatim>\<open>millis / 1000.0 + time_delta\<close>\<close>
  "millisToSecs millis time_delta =
     then_exc (float_of_int millis) (\<lambda>x.
     then_exc (ftruediv x f1000) (\<lambda>q.
     Inr (fadd q time_delta)))"

definition secsToMillis :: "pyval \<Rightarrow> pyfloat \<Rightarrow> pyexc + int" where
  "secsToMillis t time_delta =
     (if \<not> isinstance_float t then Inl ValueError
      else case t of
             PyFloat x \<Rightarrow> int_of_float (fmul (fsub x time_delta) f1000)
           | _ \<Rightarrow> Inl ValueError)"

section \<open>The histogram helper\<close>

text \<open>
  The inner \<^verbatim>\<open>while\<close> loop of \<^verbatim>\<open>buckets\<close>: from index \<open>i\<close> on, count the values
  below the breakpoint \<open>nxt\<close>, and stop at the first value that is not.
\<close>

function bucket_scan :: "'a::linorder list \<Rightarrow> 'a \<Rightarrow> nat \<Rightarrow> int \<Rightarrow> nat \<times> int" where
  "bucket_scan lst nxt i cnt =
     (if i < length lst
      then (if lst ! i < nxt then bucket_scan lst nxt (i + 1) (cnt + 1) else (i, cnt))
      else (i, cnt))"
  by pat_completeness auto
termination
  by (relation "measure (\<lambda>(lst, nxt, i, cnt). length lst - i)") auto

declare bucket_scan.simps [simp del]

text \<open>The \<^verbatim>\<open>for\<close> loop over the breakpoints, threading \<open>low\<close>, \<open>i\<close> and \<open>result\<close>.\<close>

fun bucket_loop ::
  "'a::linorder list \<Rightarrow> 'a list \<Rightarrow> 'a \<Rightarrow> nat \<Rightarrow> ('a \<times> int) list \<Rightarrow> 'a \<times> ('a \<times> int) list" where
  "bucket_loop lst [] low i result = (low, result)"
| "bucket_loop lst (nxt # lows) low i result =
     (case bucket_scan lst nxt i 0 of
        (i', cnt) \<Rightarrow> bucket_loop lst lows nxt i' (result @ [(low, cnt)]))"

text \<open>
  \<^verbatim>\<open>buckets\<close> sorts the caller's list in place: the first component of the result
  is the list as the call leaves it, the second is the returned histogram.
\<close>

definition buckets ::
  "'a::{linorder, zero} list \<Rightarrow> 'a list \<Rightarrow> 'a list \<times> ('a \<times> int) list" where
  "buckets lst0 lows =
     (let lst = sort lst0;
          low0 = (if 0 < length lst then lst ! 0 else 0)
      in case bucket_loop lst lows low0 0 [] of
           (low, result) \<Rightarrow> (lst, result @ [(low, int (length lst) - 1)]))"

section \<open>Digits and patterns\<close>

text \<open>
  The class \<^verbatim>\<open>[0-9]\<close> of \<^verbatim>\<open>re\<close> is the ten digits below 256. The class \<^verbatim>\<open>\d\<close> of a
  \<^verbatim>\<open>str\<close> pattern is every decimal digit of the Unicode database, and \<^verbatim>\<open>int()\<close> reads
  every one of them by its value. \<^verbatim>\<open>.\<close> is every character but the line feed.
\<close>

fun is_ascii_digit :: "pychar \<Rightarrow> bool" where
  "is_ascii_digit (Ch c) = (let n = (of_char c :: nat) in 48 \<le> n \<and> n \<le> 57)"
| "is_ascii_digit c = False"

fun is_digit :: "pychar \<Rightarrow> bool" where
  "is_digit (Nd n) = True"
| "is_digit c = is_ascii_digit c"

fun digit_val :: "pychar \<Rightarrow> int" where
  "digit_val (Ch c) = int (of_char c) - 48"
| "digit_val (Nd n) = int (n mod 10)"
| "digit_val (Uc n) = 0"

definition int_of_digits :: "pystr \<Rightarrow> int" where
  \<comment> \<open>\<^verbatim>\<open>int(s)\<close> for a text of decimal digits\<close>
  "int_of_digits ds = foldl (\<lambda>a c. 10 * a + digit_val c) 0 ds"

definition digit_char :: "nat \<Rightarrow> pychar" where
  "digit_char n = latin ''0123456789'' ! (n mod 10)"

function dec_of_nat :: "nat \<Rightarrow> pystr" where
  "dec_of_nat n = (if n < 10 then [digit_char n] else dec_of_nat (n div 10) @ [digit_char n])"
  by pat_completeness auto
termination
  by (relation "measure id") auto

declare dec_of_nat.simps [simp del]

definition dec_of_int :: "int \<Rightarrow> pystr" where
  \<comment> \<open>\<^verbatim>\<open>str(i)\<close> for an \<^verbatim>\<open>int\<close>\<close>
  "dec_of_int i = (if i < 0 then Ch CHR ''-'' # dec_of_nat (nat (- i)) else dec_of_nat (nat i))"

definition zero_pad :: "nat \<Rightarrow> pystr \<Rightarrow> pystr" where
  "zero_pad w ds = replicate (w - length ds) (Ch CHR ''0'') @ ds"

text \<open>
  A template stands for a regular expression of fixed width: \<open>#\<close> is a class of
  digits, \<open>dg\<close>, and every other character stands for itself.
\<close>

fun match_template :: "(pychar \<Rightarrow> bool) \<Rightarrow> string \<Rightarrow> pystr \<Rightarrow> bool" where
  "match_template dg [] [] = True"
| "match_template dg (t # ts) (c # cs) =
     ((if t = CHR ''#'' then dg c else c = Ch t) \<and> match_template dg ts cs)"
| "match_template dg ts cs = False"

definition iso_template :: string where
  \<comment> \<open>\<^verbatim>\<open>\d{4}-\d{2}-\d{2}T\d{2}:\d{2}:\d{2}\<close>, with \<open>is_digit\<close> for the class\<close>
  "iso_template = ''####-##-##T##:##:##''"

text \<open>
  \<^verbatim>\<open>re.fullmatch(r'(\d{4}-\d{2}-\d{2}T\d{2}:\d{2}:\d{2})(\.[0-9]+)(.*)', s)\<close>:
  the three groups of the match, or \<open>None\<close>. Group 1 has a fixed width of 19;
  the greedy \<^verbatim>\<open>[0-9]+\<close> takes every digit \<^verbatim>\<open>0\<close> to \<^verbatim>\<open>9\<close> that follows the point, and
  what is left is group 3 when it has no line feed. Giving digits back to group 3
  cannot turn a failure into a match, so the greedy split is the only one to try.
\<close>

definition fullmatch_iso :: "pystr \<Rightarrow> (pystr \<times> pystr \<times> pystr) option" where
  "fullmatch_iso s =
     (if match_template is_digit iso_template (take 19 s)
      then (case drop 19 s of
              [] \<Rightarrow> None
            | c # r \<Rightarrow>
                if c = Ch CHR ''.'' \<and> takeWhile is_ascii_digit r \<noteq> []
                   \<and> Ch CHR 0x0A \<notin> set (dropWhile is_ascii_digit r)
                then Some (take 19 s, c # takeWhile is_ascii_digit r, dropWhile is_ascii_digit r)
                else None)
      else None)"

text \<open>\<^verbatim>\<open>re.fullmatch(r'[+-][0-9]{4}', zone)\<close>, as the test \<^verbatim>\<open>z is not None\<close>.\<close>

definition fullmatch_zone :: "pystr \<Rightarrow> bool" where
  "fullmatch_zone zone =
     (case zone of
        [] \<Rightarrow> False
      | c # ds \<Rightarrow> (c = Ch CHR ''+'' \<or> c = Ch CHR ''-'') \<and> match_template is_ascii_digit ''####'' ds)"

section \<open>The calendar of the standard library\<close>

definition is_leap :: "int \<Rightarrow> bool" where
  "is_leap y = (if y mod 400 = 0 then True else if y mod 100 = 0 then False else y mod 4 = 0)"

definition days_before_year :: "int \<Rightarrow> int" where
  "days_before_year y = (let z = y - 1 in z * 365 + z div 4 - z div 100 + z div 400)"

definition days_in_month :: "int \<Rightarrow> int \<Rightarrow> int" where
  "days_in_month y m =
     (if m = 2 then (if is_leap y then 29 else 28)
      else if m = 4 \<or> m = 6 \<or> m = 9 \<or> m = 11 then 30 else 31)"

definition days_before_month_tab :: "int \<Rightarrow> int" where
  "days_before_month_tab m =
     (if m \<le> 1 then 0 else if m = 2 then 31 else if m = 3 then 59 else if m = 4 then 90
      else if m = 5 then 120 else if m = 6 then 151 else if m = 7 then 181
      else if m = 8 then 212 else if m = 9 then 243 else if m = 10 then 273
      else if m = 11 then 304 else 334)"

definition days_before_month :: "int \<Rightarrow> int \<Rightarrow> int" where
  "days_before_month y m = days_before_month_tab m + (if 2 < m \<and> is_leap y then 1 else 0)"

definition ymd_to_ord :: "int \<Rightarrow> int \<Rightarrow> int \<Rightarrow> int" where
  \<comment> \<open>\<^verbatim>\<open>date(y, m, d).toordinal()\<close>: day 1 is 0001-01-01\<close>
  "ymd_to_ord y m d = days_before_year y + days_before_month y m + d"

definition ord_to_ymd :: "int \<Rightarrow> int \<times> int \<times> int" where
  \<comment> \<open>the date of an ordinal, by the 400, 100, 4 and 1 year cycles\<close>
  "ord_to_ymd ordinal =
     (let n0 = ordinal - 1;
          n400 = n0 div 146097; na = n0 mod 146097;
          n100 = na div 36524; nb = na mod 36524;
          n4 = nb div 1461; nc = nb mod 1461;
          n1 = nc div 365; n = nc mod 365;
          year = n400 * 400 + 1 + n100 * 100 + n4 * 4 + n1
      in if n1 = 4 \<or> n100 = 4 then (year - 1, 12, 31)
         else let month = (n + 50) div 32;
                  preceding = days_before_month year month
              in if n < preceding
                 then (year, month - 1, n - (preceding - days_in_month year (month - 1)) + 1)
                 else (year, month, n - preceding + 1))"

definition epoch_ord :: int where
  \<comment> \<open>\<^verbatim>\<open>date(1970, 1, 1).toordinal()\<close>\<close>
  "epoch_ord = 719163"

record struct_time =
  tm_year :: int
  tm_mon :: int
  tm_mday :: int
  tm_hour :: int
  tm_min :: int
  tm_sec :: int

text \<open>
  \<^verbatim>\<open>time.strptime(d, '%Y-%m-%dT%H:%M:%S')\<close> on a text of the 19-character shape
  that group 1 always has. The library compiles the format to the pattern
  \<^verbatim>\<open>(?P<Y>\d\d\d\d)-(?P<m>1[0-2]|0[1-9]|[1-9])-(?P<d>3[0-1]|[1-2]\d|0[1-9]|[1-9]| [1-9])\<close>
  \<^verbatim>\<open>T(?P<H>2[0-3]|[0-1]\d|\d):(?P<M>[0-5]\d|\d):(?P<S>6[0-1]|[0-5]\d|\d)\<close>
  and wants it to match the text to its end. In a text of that shape every field
  has two digits, and an alternative of one character does not match there: a digit
  follows it where the pattern has the separator, or the end. So the month is 01 to
  12, the day 01 to 31, the hour 00 to 23, the minute 00 to 59 and the second 00 to
  61; the first digit of a field is one of \<^verbatim>\<open>0\<close> to \<^verbatim>\<open>9\<close>, and the second one is any
  decimal digit where the alternative has \<^verbatim>\<open>\d\<close>. The fields are read with
  \<^verbatim>\<open>int()\<close>, and the date has to be one of the calendar: the year is not 0 and the
  day is at most the length of the month. Anything else is a \<^verbatim>\<open>ValueError\<close>.
\<close>

definition in_class :: "pychar \<Rightarrow> int \<Rightarrow> int \<Rightarrow> bool" where
  \<comment> \<open>the class \<^verbatim>\<open>[a-b]\<close> of the digits \<open>a\<close> to \<open>b\<close>\<close>
  "in_class c a b = (is_ascii_digit c \<and> a \<le> digit_val c \<and> digit_val c \<le> b)"

definition month_field :: "pychar \<Rightarrow> pychar \<Rightarrow> bool" where
  \<comment> \<open>\<^verbatim>\<open>1[0-2]|0[1-9]\<close>\<close>
  "month_field a b = (in_class a 1 1 \<and> in_class b 0 2 \<or> in_class a 0 0 \<and> in_class b 1 9)"

definition day_field :: "pychar \<Rightarrow> pychar \<Rightarrow> bool" where
  \<comment> \<open>\<^verbatim>\<open>3[0-1]|[1-2]\d|0[1-9]\<close>\<close>
  "day_field a b =
     (in_class a 3 3 \<and> in_class b 0 1 \<or> in_class a 1 2 \<and> is_digit b \<or> in_class a 0 0 \<and> in_class b 1 9)"

definition hour_field :: "pychar \<Rightarrow> pychar \<Rightarrow> bool" where
  \<comment> \<open>\<^verbatim>\<open>2[0-3]|[0-1]\d\<close>\<close>
  "hour_field a b = (in_class a 2 2 \<and> in_class b 0 3 \<or> in_class a 0 1 \<and> is_digit b)"

definition minute_field :: "pychar \<Rightarrow> pychar \<Rightarrow> bool" where
  \<comment> \<open>\<^verbatim>\<open>[0-5]\d\<close>\<close>
  "minute_field a b = (in_class a 0 5 \<and> is_digit b)"

definition second_field :: "pychar \<Rightarrow> pychar \<Rightarrow> bool" where
  \<comment> \<open>\<^verbatim>\<open>6[0-1]|[0-5]\d\<close>\<close>
  "second_field a b = (in_class a 6 6 \<and> in_class b 0 1 \<or> in_class a 0 5 \<and> is_digit b)"

definition strptime_iso :: "pystr \<Rightarrow> pyexc + struct_time" where
  "strptime_iso d =
     (if \<not> match_template is_digit iso_template d then Inl ValueError
      else if \<not> (month_field (d ! 5) (d ! 6) \<and> day_field (d ! 8) (d ! 9)
                  \<and> hour_field (d ! 11) (d ! 12) \<and> minute_field (d ! 14) (d ! 15)
                  \<and> second_field (d ! 17) (d ! 18))
      then Inl ValueError
      else let y = int_of_digits (take 4 d);
               mo = int_of_digits (take 2 (drop 5 d));
               dd = int_of_digits (take 2 (drop 8 d));
               h = int_of_digits (take 2 (drop 11 d));
               mi = int_of_digits (take 2 (drop 14 d));
               sc = int_of_digits (take 2 (drop 17 d))
           in if 1 \<le> y \<and> dd \<le> days_in_month y mo
              then Inr \<lparr>tm_year = y, tm_mon = mo, tm_mday = dd, tm_hour = h, tm_min = mi, tm_sec = sc\<rparr>
              else Inl ValueError)"

definition timegm :: "struct_time \<Rightarrow> int" where
  \<comment> \<open>\<^verbatim>\<open>calendar.timegm\<close>\<close>
  "timegm tm =
     (let days = ymd_to_ord (tm_year tm) (tm_mon tm) 1 - epoch_ord + tm_mday tm - 1;
          hours = days * 24 + tm_hour tm;
          minutes = hours * 60 + tm_min tm
      in minutes * 60 + tm_sec tm)"

section \<open>Parsing ISO text\<close>

text \<open>\<^verbatim>\<open>a + b\<close> on numbers: an \<^verbatim>\<open>int\<close> operand of a \<^verbatim>\<open>float\<close> is converted first.\<close>

fun as_float :: "pyval \<Rightarrow> pyexc + pyfloat" where
  "as_float (PyFloat x) = Inr x"
| "as_float (PyInt i) = float_of_int i"
| "as_float (PyBool b) = float_of_int (if b then 1 else 0)"
| "as_float v = Inl TypeError"

definition num_add :: "pyval \<Rightarrow> pyval \<Rightarrow> pyexc + pyval" where
  "num_add a b =
     (if isinstance_float a \<or> isinstance_float b
      then then_exc (as_float a) (\<lambda>x. then_exc (as_float b) (\<lambda>y. Inr (PyFloat (fadd x y))))
      else if isinstance_int a \<and> isinstance_int b then Inr (PyInt (int_value a + int_value b))
      else Inl TypeError)"

definition float_of_fraction :: "pystr \<Rightarrow> pyfloat" where
  \<comment> \<open>\<^verbatim>\<open>float(g)\<close> for a text \<open>g\<close> made of a point and digits \<^verbatim>\<open>0\<close> to \<^verbatim>\<open>9\<close>\<close>
  "float_of_fraction g = float_of_decimal (int_of_digits (drop 1 g)) (length g - 1)"

text \<open>
  The part of \<^verbatim>\<open>strpSecs\<close> under \<^verbatim>\<open>try\<close>, given the groups of the match. First
  the \<^verbatim>\<open>if\<close>, \<^verbatim>\<open>elif\<close>, \<^verbatim>\<open>else\<close> on the zone, which gives the offset in seconds:
  \<^verbatim>\<open>zone[0]\<close> on an empty text is an \<^verbatim>\<open>IndexError\<close>.
\<close>

definition zone_offset :: "pystr \<Rightarrow> pyexc + int" where
  "zone_offset zone =
     (case zone of
        [] \<Rightarrow> Inl IndexError
      | z0 # zs \<Rightarrow>
          if z0 = Ch CHR ''Z'' then Inr 0
          else if fullmatch_zone zone
          then Inr ((if z0 = Ch CHR ''+'' then - 60 else 60)
                    * (int_of_digits (take 2 (drop 1 zone)) * 60 + int_of_digits (take 2 (drop 3 zone))))
          else Inl ValueError)"

definition strpSecs_body :: "pystr \<Rightarrow> pystr \<Rightarrow> pystr \<Rightarrow> pyexc + pyval" where
  "strpSecs_body g1 g2 zone =
     then_exc (zone_offset zone) (\<lambda>offset.
     then_exc (strptime_iso g1) (\<lambda>tm.
     then_exc
       (if 0 < length g2 then num_add (PyInt (timegm tm)) (PyFloat (float_of_fraction g2))
        else Inr (PyInt (timegm tm)))
       (\<lambda>secs. num_add secs (PyInt offset))))"

definition strpSecs :: "pystr \<Rightarrow> pyexc + pyval" where
  "strpSecs s =
     (case fullmatch_iso s of
        Some (g1, g2, zone) \<Rightarrow>
          (case strpSecs_body g1 g2 zone of
             Inl ValueError \<Rightarrow> Inl ValueError
           | r \<Rightarrow> r)
      | None \<Rightarrow> Inl ValueError)"

definition anyToSecs :: "pyval \<Rightarrow> pyfloat \<Rightarrow> pyexc + pyval" where
  "anyToSecs t offset =
     (if isinstance_int t
      then then_exc (float_of_int (int_value t)) (\<lambda>x.
           then_exc (ftruediv x f1000) (\<lambda>q.
           Inr (PyFloat (fadd q offset))))
      else if isinstance_float t then Inr t
      else case t of
             PyStr s \<Rightarrow> strpSecs s
           | _ \<Rightarrow> Inl TypeError)"

section \<open>Formatting in the home zone\<close>

record datetime =
  dt_year :: int
  dt_month :: int
  dt_day :: int
  dt_hour :: int
  dt_minute :: int
  dt_second :: int
  dt_microsecond :: int

text \<open>
  What \<^verbatim>\<open>strfTime\<close> takes from outside the repository and this theory leaves open:
  the offset from UTC, in seconds, that the table of \<^verbatim>\<open>timezone('US/Eastern')\<close>
  gives at a UTC second; the \<^verbatim>\<open>str()\<close> of a float, a text of code points below 256;
  and whether the \<^verbatim>\<open>strftime\<close> of the C library, to which \<^verbatim>\<open>datetime.strftime\<close> hands
  \<^verbatim>\<open>%Y\<close>, fills a year below 1000 with zeros to four digits (the GNU C library does
  not: it writes the year 702 as \<^verbatim>\<open>702\<close>).
\<close>

record runtime =
  utcoffset :: "int \<Rightarrow> int"
  float_str :: "pyfloat \<Rightarrow> string"
  year_padded :: bool

definition f1000000 :: pyfloat where
  \<comment> \<open>the literal \<^verbatim>\<open>1000000.0\<close>\<close>
  "f1000000 = Fin 8589934592000000 (- 33)"

fun float_rne :: "pyfloat \<Rightarrow> int" where
  \<comment> \<open>a finite float rounded to the nearest integer, ties to even\<close>
  "float_rne (Fin m e) =
     (if 0 \<le> e then m * 2 ^ nat e else sgn m * rne_div \<bar>m\<bar> (2 ^ nat (- e)))"
| "float_rne x = 0"

text \<open>
  The seconds and microseconds of a timestamp: the fractional part of a float, times
  \<open>10\<^sup>6\<close>, is rounded half to even, and a carry or a borrow goes to the seconds; the
  seconds have to fit the 64-bit \<^verbatim>\<open>time_t\<close>.
\<close>

definition timestamp_split :: "pyval \<Rightarrow> pyexc + int \<times> int" where
  "timestamp_split v =
     (case v of
        PyFloat (Fin m e) \<Rightarrow>
          (let ip = (if 0 \<le> e then m * 2 ^ nat e else sgn m * (\<bar>m\<bar> div 2 ^ nat (- e)));
               frac = (if 0 \<le> e then Fin 0 0 else Fin (sgn m * (\<bar>m\<bar> mod 2 ^ nat (- e))) e);
               us0 = float_rne (fmul frac f1000000);
               sec = (if 1000000 \<le> us0 then ip + 1 else if us0 < 0 then ip - 1 else ip);
               us = (if 1000000 \<le> us0 then us0 - 1000000 else if us0 < 0 then us0 + 1000000 else us0)
           in if - (2 ^ 63) \<le> sec \<and> sec < 2 ^ 63 then Inr (sec, us) else Inl OverflowError)
      | PyFloat NaN \<Rightarrow> Inl ValueError
      | PyFloat x \<Rightarrow> Inl OverflowError
      | PyStr s \<Rightarrow> Inl TypeError
      | PyNone \<Rightarrow> Inl TypeError
      | PyOther r \<Rightarrow> Inl TypeError
      | i \<Rightarrow> (if - (2 ^ 63) \<le> int_value i \<and> int_value i < 2 ^ 63 then Inr (int_value i, 0)
              else Inl OverflowError))"

definition civil_of_seconds :: "int \<Rightarrow> int \<Rightarrow> datetime" where
  \<comment> \<open>the calendar date and the time of day of a count of seconds from 1970-01-01T00:00:00\<close>
  "civil_of_seconds s us =
     (let sod = s mod 86400
      in case ord_to_ymd (s div 86400 + epoch_ord) of
           (y, m, d) \<Rightarrow>
             \<lparr>dt_year = y, dt_month = m, dt_day = d, dt_hour = sod div 3600,
              dt_minute = sod mod 3600 div 60, dt_second = sod mod 60, dt_microsecond = us\<rparr>)"

text \<open>
  \<^verbatim>\<open>datetime.fromtimestamp(t, home_zone)\<close>: the UTC date of the timestamp is
  computed first (\<^verbatim>\<open>OSError\<close> when the year does not fit the C \<^verbatim>\<open>int\<close> of
  \<^verbatim>\<open>struct tm\<close>, \<^verbatim>\<open>ValueError\<close> when it is not a year from 1 to 9999), then the
  zone adds its offset (\<^verbatim>\<open>OverflowError\<close> when that leaves the years 1 to 9999).
\<close>

definition fromtimestamp :: "runtime \<Rightarrow> pyval \<Rightarrow> pyexc + datetime" where
  "fromtimestamp rt t =
     then_exc (timestamp_split t) (\<lambda>(sec, us).
       let utc = civil_of_seconds sec us
       in if dt_year utc - 1900 < - (2 ^ 31) \<or> 2 ^ 31 \<le> dt_year utc - 1900 then Inl OSError
          else if dt_year utc < 1 \<or> 9999 < dt_year utc then Inl ValueError
          else let loc = civil_of_seconds (sec + utcoffset rt sec) us
               in if dt_year loc < 1 \<or> 9999 < dt_year loc then Inl OverflowError
                  else Inr loc)"

text \<open>
  \<^verbatim>\<open>dt.strftime(fmt)\<close> for the directives of the patterns of this repository and
  their like; any other directive is the C library's, and is left as it is written.
  The C library fills the month, the day, the hour, the minute, the second and the
  year of the century to two digits, and \<^verbatim>\<open>datetime\<close> itself writes the six digits of
  \<^verbatim>\<open>%f\<close>.
\<close>

definition strftime_directive :: "runtime \<Rightarrow> datetime \<Rightarrow> pychar \<Rightarrow> pystr" where
  "strftime_directive rt dt k =
     (if k = Ch CHR ''Y''
      then (if year_padded rt then zero_pad 4 (dec_of_int (dt_year dt)) else dec_of_int (dt_year dt))
      else if k = Ch CHR ''y'' then zero_pad 2 (dec_of_int (dt_year dt mod 100))
      else if k = Ch CHR ''m'' then zero_pad 2 (dec_of_int (dt_month dt))
      else if k = Ch CHR ''d'' then zero_pad 2 (dec_of_int (dt_day dt))
      else if k = Ch CHR ''H'' then zero_pad 2 (dec_of_int (dt_hour dt))
      else if k = Ch CHR ''M'' then zero_pad 2 (dec_of_int (dt_minute dt))
      else if k = Ch CHR ''S'' then zero_pad 2 (dec_of_int (dt_second dt))
      else if k = Ch CHR ''f'' then zero_pad 6 (dec_of_int (dt_microsecond dt))
      else if k = Ch CHR ''%'' then [Ch CHR ''%'']
      else [Ch CHR ''%'', k])"

fun strftime :: "runtime \<Rightarrow> datetime \<Rightarrow> pystr \<Rightarrow> pystr" where
  "strftime rt dt [] = []"
| "strftime rt dt [c] = [c]"
| "strftime rt dt (c # k # r) =
     (if c = Ch CHR ''%'' then strftime_directive rt dt k @ strftime rt dt r
      else c # strftime rt dt (k # r))"

text \<open>
  \<^verbatim>\<open>f"{x:.3f}"\<close>: the decimal text with three digits after the point that is
  nearest to the exact value of the float, ties to even.
\<close>

fun format_3f :: "pyfloat \<Rightarrow> pystr" where
  "format_3f (Fin m e) =
     (let n = (if 0 \<le> e then \<bar>m\<bar> * 2 ^ nat e * 1000 else rne_div (\<bar>m\<bar> * 1000) (2 ^ nat (- e)))
      in (if m < 0 then [Ch CHR ''-''] else []) @ dec_of_int (n div 1000) @ [Ch CHR ''.'']
         @ zero_pad 3 (dec_of_int (n mod 1000)))"
| "format_3f PInf = latin ''inf''"
| "format_3f NInf = latin ''-inf''"
| "format_3f NaN = latin ''nan''"

definition last4 :: "pystr \<Rightarrow> pystr" where
  \<comment> \<open>\<^verbatim>\<open>s[-4:]\<close>\<close>
  "last4 s = drop (length s - 4) s"

fun py_str :: "runtime \<Rightarrow> pyval \<Rightarrow> pystr" where
  "py_str rt (PyInt i) = dec_of_int i"
| "py_str rt (PyBool b) = latin (if b then ''True'' else ''False'')"
| "py_str rt (PyFloat x) = latin (float_str rt x)"
| "py_str rt (PyStr s) = s"
| "py_str rt PyNone = latin ''None''"
| "py_str rt (PyOther r) = r"

definition iso_format :: pystr where
  \<comment> \<open>the default of \<^verbatim>\<open>fmt\<close>\<close>
  "iso_format = latin ''%Y-%m-%dT%H:%M:%S''"

text \<open>The end of \<^verbatim>\<open>strfTime\<close>, from \<^verbatim>\<open>s = dt.strftime(fmt)\<close> on.\<close>

definition strfTime_format :: "runtime \<Rightarrow> datetime \<Rightarrow> pystr \<Rightarrow> bool \<Rightarrow> pyexc + pystr" where
  "strfTime_format rt dt fmt millis =
     (let s = strftime rt dt fmt
      in if millis
         then then_exc (float_of_int (dt_microsecond dt)) (\<lambda>u.
              then_exc (ftruediv u f1000000) (\<lambda>x.
              Inr (s @ last4 (format_3f x))))
         else Inr s)"

text \<open>The body of the outer \<^verbatim>\<open>try\<close> of \<^verbatim>\<open>strfTime\<close>.\<close>

definition strfTime_body :: "runtime \<Rightarrow> pyval \<Rightarrow> pystr \<Rightarrow> bool \<Rightarrow> pyexc + pystr" where
  "strfTime_body rt t fmt millis =
     (if isinstance_float t
      then then_exc (fromtimestamp rt t) (\<lambda>dt. strfTime_format rt dt fmt millis)
      else if isinstance_int t
      then then_exc (millisToSecs (int_value t) fzero) (\<lambda>secs.
           then_exc (fromtimestamp rt (PyFloat secs)) (\<lambda>dt. strfTime_format rt dt fmt millis))
      else case t of
             PyStr s \<Rightarrow>
               (case then_exc (strpSecs s) (fromtimestamp rt) of
                  Inl ValueError \<Rightarrow> Inr s
                | Inl e \<Rightarrow> Inl e
                | Inr dt \<Rightarrow> strfTime_format rt dt fmt millis)
           | _ \<Rightarrow> Inr (py_str rt t))"

definition strfTime :: "runtime \<Rightarrow> pyval \<Rightarrow> pystr \<Rightarrow> bool \<Rightarrow> pyexc + pystr" where
  "strfTime rt t fmt millis =
     (case strfTime_body rt t fmt millis of
        Inl OSError \<Rightarrow> Inr (py_str rt t)
      | r \<Rightarrow> r)"

section \<open>The grammar and the zone of the specification\<close>

text \<open>
  The grammar that the specification gives for \<^verbatim>\<open>parseISO\<close>,
  \<^verbatim>\<open>(\d{4}-\d{2}-\d{2}T\d{2}:\d{2}:\d{2})(\.\d+)?(Z|[+-]\d{4})\<close>, as a full match,
  with the ten digits \<^verbatim>\<open>0\<close> to \<^verbatim>\<open>9\<close> for \<^verbatim>\<open>\d\<close>. A zone starts with no point and no
  digit, so a fraction that is there is taken, with all its digits.
\<close>

definition iso_grammar :: "pystr \<Rightarrow> bool" where
  "iso_grammar s =
     (match_template is_ascii_digit iso_template (take 19 s)
      \<and> (let r = drop 19 s;
              zone = (case r of
                        [] \<Rightarrow> r
                      | c # ds \<Rightarrow> if c = Ch CHR ''.'' \<and> takeWhile is_ascii_digit ds \<noteq> []
                                 then dropWhile is_ascii_digit ds else r)
          in zone = latin ''Z'' \<or> fullmatch_zone zone))"

text \<open>
  A date and a time of the calendar, in a text of the 19-character shape: the year
  is not 0000, the month is 01 to 12, the day 01 to the length of the month, the
  hour at most 23, the minute at most 59 and the second at most 61.
\<close>

definition date_time_valid :: "pystr \<Rightarrow> bool" where
  "date_time_valid d =
     (let y = int_of_digits (take 4 d);
          mo = int_of_digits (take 2 (drop 5 d));
          dd = int_of_digits (take 2 (drop 8 d));
          h = int_of_digits (take 2 (drop 11 d));
          mi = int_of_digits (take 2 (drop 14 d));
          sc = int_of_digits (take 2 (drop 17 d))
      in 1 \<le> y \<and> 1 \<le> mo \<and> mo \<le> 12 \<and> 1 \<le> dd \<and> dd \<le> days_in_month y mo
         \<and> h \<le> 23 \<and> mi \<le> 59 \<and> sc \<le> 61)"

text \<open>
  The texts that the pattern of \<^verbatim>\<open>strpSecs\<close> matches and that the tests which follow
  take no notice of: nothing comes after the fraction, or what comes after it starts
  with \<^verbatim>\<open>Z\<close>, or a zone \<^verbatim>\<open>+HHMM\<close> or \<^verbatim>\<open>-HHMM\<close> comes after it and the date and time
  have a decimal digit that is none of \<^verbatim>\<open>0\<close> to \<^verbatim>\<open>9\<close>.
\<close>

definition let_through :: "pystr \<Rightarrow> bool" where
  "let_through s =
     (case fullmatch_iso s of
        None \<Rightarrow> False
      | Some (d, g2, zone) \<Rightarrow>
          (case zone of
             [] \<Rightarrow> True
           | z0 # zs \<Rightarrow>
               z0 = Ch CHR ''Z''
               \<or> (fullmatch_zone zone \<and> \<not> match_template is_ascii_digit iso_template d)))"

definition zone_minutes :: "pystr \<Rightarrow> int" where
  \<comment> \<open>the minutes \<open>HH * 60 + MM\<close> of the four digits \<open>HHMM\<close>\<close>
  "zone_minutes hhmm = int_of_digits (take 2 hhmm) * 60 + int_of_digits (drop 2 hhmm)"

text \<open>
  The milliseconds as the specification describes them: of the microseconds
  written with six digits, the first three.
\<close>

definition millis_truncated :: "int \<Rightarrow> pystr" where
  "millis_truncated us = take 3 (zero_pad 6 (dec_of_int us))"

text \<open>
  The runtime of the worked examples: Eastern Standard Time, the offset of
  \<^verbatim>\<open>US/Eastern\<close> at the instants they use, and the GNU C library. None of them
  reaches the \<^verbatim>\<open>str()\<close> of a float.
\<close>

definition example_runtime :: runtime where
  "example_runtime = \<lparr>utcoffset = (\<lambda>u. - 18000), float_str = (\<lambda>x. ''float''), year_padded = False\<rparr>"

section \<open>Evaluation\<close>

lemmas float_eval =
  round_frac_def round_pos_def ilog2_frac_def rne_div_def round_scaled_def
  float_of_decimal_def float_of_int_def fsub_def f1000_def fzero_def f1000000_def
  Let_def compute_bitlen

lemmas text_eval =
  fullmatch_iso_def fullmatch_zone_def zone_offset_def iso_template_def latin_def
  int_of_digits_def float_of_fraction_def

section \<open>Integers as floats\<close>

lemma rne_div_one: "rne_div n 1 = n"
  by (simp add: rne_div_def)

lemma bitlen_one: "bitlen 1 = 1"
  by (subst compute_bitlen) simp

lemma bitlen_le_53:
  assumes "0 < n" "n < 2 ^ 53"
  shows "1 \<le> bitlen n \<and> bitlen n \<le> 53"
proof -
  have "2 ^ nat (bitlen n - 1) \<le> n"
    using bitlen_bounds [OF assms(1)] by simp
  then have "(2::int) ^ nat (bitlen n - 1) < 2 ^ 53"
    using assms(2) by linarith
  then have "nat (bitlen n - 1) < 53"
    by (rule power_less_imp_less_exp [rotated]) simp
  moreover have "1 \<le> bitlen n"
    using assms(1) by (simp add: bitlen_def floorlog_def)
  ultimately show ?thesis
    by linarith
qed

lemma round_pos_int_exact:
  assumes "0 < n" "n < 2 ^ 53"
  shows "round_pos n 1 = Some (n * 2 ^ nat (53 - bitlen n), bitlen n - 53)"
proof -
  have b: "2 ^ nat (bitlen n - 1) \<le> n" "n < 2 ^ nat (bitlen n)"
    using bitlen_bounds [OF assms(1)] by simp_all
  have bpos: "1 \<le> bitlen n" and ble: "bitlen n \<le> 53"
    using bitlen_le_53 [OF assms] by simp_all
  have il: "ilog2_frac n 1 = bitlen n - 1"
    using b(1) bpos by (simp add: ilog2_frac_def Let_def bitlen_one)
  have "n * 2 ^ nat (53 - bitlen n) < 2 ^ nat (bitlen n) * 2 ^ nat (53 - bitlen n)"
    using b(2) by simp
  also have "\<dots> = 2 ^ (nat (bitlen n) + nat (53 - bitlen n))"
    by (simp add: power_add)
  also have "nat (bitlen n) + nat (53 - bitlen n) = 53"
    using bpos ble by linarith
  finally have lt: "n * 2 ^ nat (53 - bitlen n) < 2 ^ 53" .
  have e: "max (- 1074) (ilog2_frac n 1 - 52) = bitlen n - 53"
    using il bpos by simp
  have ne: "nat (- (bitlen n - 53)) = nat (53 - bitlen n)"
    by simp
  show ?thesis
    unfolding round_pos_def e Let_def
    using ble lt by (simp add: rne_div_one ne)
qed

lemma float_of_int_exact:
  assumes "\<bar>i\<bar> < 2 ^ 53"
  shows "\<exists>m e. float_of_int i = Inr (Fin m e) \<and> valof (Fin m e) = of_int i"
proof (cases "i = 0")
  case True
  then show ?thesis by (simp add: float_of_int_def round_frac_def)
next
  case False
  then have pos: "0 < \<bar>i\<bar>" by simp
  define b where "b = bitlen \<bar>i\<bar>"
  have rp: "round_pos \<bar>i\<bar> 1 = Some (\<bar>i\<bar> * 2 ^ nat (53 - b), b - 53)"
    unfolding b_def by (rule round_pos_int_exact [OF pos assms])
  have f: "float_of_int i = Inr (Fin (sgn i * (\<bar>i\<bar> * 2 ^ nat (53 - b))) (b - 53))"
    using False by (simp add: float_of_int_def round_frac_def rp)
  have ble: "b \<le> 53"
    using bitlen_le_53 [OF pos assms] by (simp add: b_def)
  have "pow2 (b - 53) = 1 / 2 ^ nat (53 - b)"
    using ble by (cases "b = 53") (simp_all add: pow2_def)
  then have "valof (Fin (sgn i * (\<bar>i\<bar> * 2 ^ nat (53 - b))) (b - 53)) = of_int (sgn i * \<bar>i\<bar>)"
    by simp
  then show ?thesis
    using f by (simp add: mult_sgn_abs)
qed

section \<open>Truncation\<close>

lemma rtz_divide:
  assumes "0 < d"
  shows "round_toward_zero (of_int m / of_int d) = sgn m * (\<bar>m\<bar> div d)"
proof (cases "0 \<le> m")
  case True
  have "0 \<le> (of_int m :: rat) / of_int d"
    using True assms by simp
  moreover have "\<lfloor>(of_int m :: rat) / of_int d\<rfloor> = m div d"
    by (rule floor_divide_of_int_eq)
  moreover have "sgn m * (\<bar>m\<bar> div d) = m div d"
    using True by (cases "m = 0") (simp_all add: sgn_if)
  ultimately show ?thesis
    by (simp only: round_toward_zero_def if_True)
next
  case False
  have "(of_int m :: rat) / of_int d < 0"
    using False assms by (simp add: divide_neg_pos)
  then have "round_toward_zero (of_int m / of_int d) = - \<lfloor>- ((of_int m :: rat) / of_int d)\<rfloor>"
    by (simp add: round_toward_zero_def)
  also have "- ((of_int m :: rat) / of_int d) = of_int (- m) / of_int d"
    by simp
  also have "\<lfloor>(of_int (- m) :: rat) / of_int d\<rfloor> = (- m) div d"
    by (rule floor_divide_of_int_eq)
  finally show ?thesis
    using False by (simp add: sgn_if)
qed

lemma int_of_float_Fin:
  "int_of_float (Fin m e) = Inr (round_toward_zero (valof (Fin m e)))"
proof (cases "0 \<le> e")
  case True
  have "valof (Fin m e) = of_int (m * 2 ^ nat e)"
    using True by (simp add: pow2_def)
  moreover have "round_toward_zero (of_int (m * 2 ^ nat e)) = m * 2 ^ nat e"
    unfolding round_toward_zero_def by (simp only: floor_of_int flip: of_int_minus) simp
  ultimately show ?thesis
    using True by (simp only: int_of_float.simps if_True)
next
  case False
  have "valof (Fin m e) = of_int m / of_int (2 ^ nat (- e))"
    using False by (simp add: pow2_def)
  moreover have "round_toward_zero (of_int m / of_int (2 ^ nat (- e))) = sgn m * (\<bar>m\<bar> div 2 ^ nat (- e))"
    by (rule rtz_divide) simp
  ultimately show ?thesis
    using False by (simp only: int_of_float.simps if_False)
qed

lemma secsToMillis_float:
  "secsToMillis (PyFloat x) time_delta =
     (case fmul (fsub x time_delta) f1000 of
        Fin m e \<Rightarrow> Inr (round_toward_zero (valof (Fin m e)))
      | NaN \<Rightarrow> Inl ValueError
      | PInf \<Rightarrow> Inl OverflowError
      | NInf \<Rightarrow> Inl OverflowError)"
proof (cases "fmul (fsub x time_delta) f1000")
  case (Fin m e)
  then show ?thesis
    by (simp only: secsToMillis_def isinstance_float.simps pyval.case pyfloat.case int_of_float_Fin) simp
qed (simp_all add: secsToMillis_def)

lemma secsToMillis_example:
  "secsToMillis (PyFloat (float_of_decimal 1700000000999 3)) fzero = Inr 1700000000999"
  by (simp add: secsToMillis_def float_eval)

section \<open>The claims on the conversions and on the histogram\<close>

text \<open>
  C10. For every list of values and every list of breakpoints, the last pair of the
  histogram that \<^verbatim>\<open>buckets\<close> returns has the count \<^verbatim>\<open>len(lst) - 1\<close>, whatever the
  number of values at or above the top breakpoint is.
\<close>

theorem buckets_last_count:
  "snd (last (snd (buckets lst lows))) = int (length lst) - 1"
  by (simp add: buckets_def Let_def split: prod.split)

text \<open>
  An instance: none of the three values is at or above the breakpoint 10, and the
  count of the last pair is 2.
\<close>

lemma buckets_example:
  "buckets [1, 2, 3 :: int] [10] = ([1, 2, 3], [(1, 3), (10, 2)])"
  by (simp add: buckets_def Let_def bucket_scan.simps)

text \<open>
  C5, as the code has it. For every argument that is not a float, integers and
  booleans included, \<^verbatim>\<open>secsToMillis\<close> raises \<^verbatim>\<open>ValueError\<close>: the class that
  \<^verbatim>\<open>strpSecs\<close> raises for text that it does not accept, not the \<^verbatim>\<open>TypeError\<close> that
  \<^verbatim>\<open>anyToSecs\<close> raises for a type that it does not support.
\<close>

theorem secsToMillis_not_float:
  "\<not> isinstance_float t \<Longrightarrow> secsToMillis t time_delta = Inl ValueError"
  by (simp add: secsToMillis_def)

theorem secsToMillis_not_float_witness:
  "\<not> isinstance_float (PyInt 1700000000) \<and> secsToMillis (PyInt 1700000000) fzero = Inl ValueError"
  using secsToMillis_not_float [of "PyInt 1700000000" fzero] by simp

text \<open>
  The claim as the specification words it fails: on the integer 5 the error of
  \<^verbatim>\<open>secsToMillis\<close> is not the one that \<^verbatim>\<open>anyToSecs\<close> raises on \<^verbatim>\<open>None\<close>, and it is
  the one that \<^verbatim>\<open>strpSecs\<close> raises on \<^verbatim>\<open>'not-a-date'\<close>.
\<close>

theorem secsToMillis_error_kind_counterexample:
  "\<not> isinstance_float (PyInt 5)
   \<and> secsToMillis (PyInt 5) fzero \<noteq> Inl TypeError
   \<and> secsToMillis (PyInt 5) fzero = Inl ValueError
   \<and> anyToSecs PyNone fzero = Inl TypeError
   \<and> strpSecs (latin ''not-a-date'') = Inl ValueError"
  by (simp add: secsToMillis_def anyToSecs_def strpSecs_def text_eval)

text \<open>
  C6. For every float \<open>x\<close> and every \<open>time_delta\<close>, \<^verbatim>\<open>secsToMillis\<close> returns the
  float product \<^verbatim>\<open>(x - time_delta) * 1000.0\<close> rounded toward zero, whenever that
  product is a finite number (an infinity or a NaN has no integer: \<^verbatim>\<open>int()\<close>
  raises); and \<^verbatim>\<open>secsToMillis(1700000000.999)\<close> is 1700000000999.
\<close>

theorem secsToMillis_truncates:
  "secsToMillis (PyFloat x) time_delta =
     (case fmul (fsub x time_delta) f1000 of
        Fin m e \<Rightarrow> Inr (round_toward_zero (valof (Fin m e)))
      | NaN \<Rightarrow> Inl ValueError
      | PInf \<Rightarrow> Inl OverflowError
      | NInf \<Rightarrow> Inl OverflowError)
   \<and> secsToMillis (PyFloat (float_of_decimal 1700000000999 3)) fzero = Inr 1700000000999"
  using secsToMillis_float secsToMillis_example by simp

text \<open>
  C9. For every boolean \<open>b\<close> and every offset, \<^verbatim>\<open>anyToSecs\<close> does not raise
  \<^verbatim>\<open>TypeError\<close>: it takes the path of the integer 1 or 0 and returns the float
  0.001 or 0.0 plus the offset.
\<close>

theorem anyToSecs_bool:
  "anyToSecs (PyBool b) offset = anyToSecs (PyInt (if b then 1 else 0)) offset
   \<and> anyToSecs (PyBool b) offset = Inr (PyFloat (fadd (float_of_decimal (if b then 1 else 0) 3) offset))
   \<and> anyToSecs (PyBool b) offset \<noteq> Inl TypeError"
  by (cases b) (simp_all add: anyToSecs_def float_eval)

text \<open>
  C8. \<^verbatim>\<open>anyToSecs\<close> returns \<^verbatim>\<open>t/1000.0 + offset\<close> for every integer, as
  \<^verbatim>\<open>millisToSecs\<close> computes it (below \<open>2\<^sup>5\<^sup>3\<close> in magnitude the integer is converted
  to a float exactly, and something is returned); it returns every float as it is,
  whatever the offset; it hands every text to \<^verbatim>\<open>strpSecs\<close>, whatever the offset;
  and it raises \<^verbatim>\<open>TypeError\<close> for every value that is no \<^verbatim>\<open>int\<close>, \<^verbatim>\<open>float\<close> or
  \<^verbatim>\<open>str\<close>.
\<close>

theorem anyToSecs_dispatch:
  "anyToSecs (PyInt i) offset = (case millisToSecs i offset of Inl e \<Rightarrow> Inl e | Inr y \<Rightarrow> Inr (PyFloat y))
   \<and> (\<bar>i\<bar> < 2 ^ 53 \<longrightarrow>
        (\<exists>y q. float_of_int i = Inr y \<and> valof y = of_int i \<and> ftruediv y f1000 = Inr q
               \<and> anyToSecs (PyInt i) offset = Inr (PyFloat (fadd q offset))))
   \<and> anyToSecs (PyFloat x) offset = Inr (PyFloat x)
   \<and> anyToSecs (PyStr s) offset = strpSecs s
   \<and> (\<not> isinstance_int t \<and> \<not> isinstance_float t \<and> \<not> isinstance_str t
        \<longrightarrow> anyToSecs t offset = Inl TypeError)"
proof (intro conjI impI)
  show "anyToSecs (PyInt i) offset = (case millisToSecs i offset of Inl e \<Rightarrow> Inl e | Inr y \<Rightarrow> Inr (PyFloat y))"
    by (cases "float_of_int i"; cases "ftruediv (projr (float_of_int i)) f1000")
       (simp_all add: anyToSecs_def millisToSecs_def)
next
  assume "\<bar>i\<bar> < 2 ^ 53"
  then obtain m e where y: "float_of_int i = Inr (Fin m e)" "valof (Fin m e) = of_int i"
    using float_of_int_exact by blast
  obtain q where q: "ftruediv (Fin m e) f1000 = Inr q"
    by (simp add: f1000_def)
  have "anyToSecs (PyInt i) offset = Inr (PyFloat (fadd q offset))"
    by (simp add: anyToSecs_def y q)
  with y q show "\<exists>y q. float_of_int i = Inr y \<and> valof y = of_int i \<and> ftruediv y f1000 = Inr q
      \<and> anyToSecs (PyInt i) offset = Inr (PyFloat (fadd q offset))"
    by blast
next
  show "anyToSecs (PyFloat x) offset = Inr (PyFloat x)"
    by (simp add: anyToSecs_def)
next
  show "anyToSecs (PyStr s) offset = strpSecs s"
    by (simp add: anyToSecs_def)
next
  assume "\<not> isinstance_int t \<and> \<not> isinstance_float t \<and> \<not> isinstance_str t"
  then show "anyToSecs t offset = Inl TypeError"
    by (cases t) (simp_all add: anyToSecs_def)
qed

theorem anyToSecs_dispatch_witness:
  "\<bar>1700000000000\<bar> < (2 ^ 53 :: int)
   \<and> anyToSecs (PyInt 1700000000000) fzero = Inr (PyFloat (float_of_decimal 1700000000 0))
   \<and> anyToSecs (PyFloat (float_of_decimal 17000000005 1)) (float_of_decimal 25 1)
       = Inr (PyFloat (float_of_decimal 17000000005 1))
   \<and> anyToSecs (PyStr (latin ''not-a-date'')) fzero = Inl ValueError
   \<and> \<not> isinstance_int PyNone \<and> \<not> isinstance_float PyNone \<and> \<not> isinstance_str PyNone
   \<and> anyToSecs PyNone fzero = Inl TypeError"
  using anyToSecs_dispatch [of 1700000000000 fzero "float_of_decimal 17000000005 1" "latin ''not-a-date''" PyNone]
  by (simp add: anyToSecs_def strpSecs_def text_eval float_eval)


section \<open>Templates and groups\<close>

lemma match_template_Nil_iff: "match_template dg [] cs = (cs = [])"
  by (cases cs) simp_all

lemma match_template_Cons_iff:
  "match_template dg (t # ts) cs =
     (\<exists>c cs'. cs = c # cs' \<and> (if t = CHR ''#'' then dg c else c = Ch t) \<and> match_template dg ts cs')"
  by (cases cs) simp_all

lemma match_template_length: "match_template dg ts cs \<Longrightarrow> length cs = length ts"
  by (induction dg ts cs rule: match_template.induct) simp_all

lemma match_template_mono:
  assumes "\<And>c. dg c \<Longrightarrow> dg' c"
  shows "match_template dg ts cs \<Longrightarrow> match_template dg' ts cs"
proof (induction ts arbitrary: cs)
  case Nil
  then show ?case by (cases cs) simp_all
next
  case (Cons t ts)
  then show ?case by (cases cs) (auto simp: assms)
qed

lemma is_ascii_digit_is_digit: "is_ascii_digit c \<Longrightarrow> is_digit c"
  by (cases c) simp_all

lemma match_template_ascii:
  "match_template is_ascii_digit ts cs \<Longrightarrow> match_template is_digit ts cs"
  by (rule match_template_mono [of is_ascii_digit]) (rule is_ascii_digit_is_digit)

lemma iso_template_cases:
  assumes "match_template dg iso_template d"
  obtains y1 y2 y3 y4 m1 m2 d1 d2 h1 h2 n1 n2 s1 s2 where
    "d = [y1, y2, y3, y4, Ch CHR ''-'', m1, m2, Ch CHR ''-'', d1, d2, Ch CHR ''T'', h1, h2,
          Ch CHR '':'', n1, n2, Ch CHR '':'', s1, s2]"
    "dg y1" "dg y2" "dg y3" "dg y4" "dg m1" "dg m2" "dg d1" "dg d2" "dg h1" "dg h2"
    "dg n1" "dg n2" "dg s1" "dg s2"
  using assms unfolding iso_template_def
  by (auto simp: match_template_Cons_iff match_template_Nil_iff)

lemma zone_template_cases:
  assumes "match_template dg ''####'' z"
  obtains a b c e where "z = [a, b, c, e]" "dg a" "dg b" "dg c" "dg e"
  using assms by (auto simp: match_template_Cons_iff match_template_Nil_iff)

lemma ascii_digit_val_bounds: "is_ascii_digit c \<Longrightarrow> 0 \<le> digit_val c \<and> digit_val c \<le> 9"
  by (cases c) (auto simp: Let_def)

lemma digit_val_bounds: "is_digit c \<Longrightarrow> 0 \<le> digit_val c \<and> digit_val c \<le> 9"
proof (cases c)
  case (Nd n)
  have "n mod 10 < 10"
    by simp
  then show ?thesis
    by (simp add: Nd)
qed (auto simp: Let_def)

lemma takeWhile_digits:
  assumes "list_all is_ascii_digit ds" "z = [] \<or> \<not> is_ascii_digit (hd z)"
  shows "takeWhile is_ascii_digit (ds @ z) = ds" "dropWhile is_ascii_digit (ds @ z) = z"
proof -
  have tz: "takeWhile is_ascii_digit z = []" "dropWhile is_ascii_digit z = z"
    using assms(2) by (cases z; simp)+
  have all: "\<And>x. x \<in> set ds \<Longrightarrow> is_ascii_digit x"
    using assms(1) by (simp add: list_all_iff)
  show "takeWhile is_ascii_digit (ds @ z) = ds"
    using all tz by (simp add: takeWhile_append2)
  show "dropWhile is_ascii_digit (ds @ z) = z"
    using all tz by (simp add: dropWhile_append2)
qed

lemma fullmatch_iso_groups:
  assumes "match_template is_digit iso_template d" "ds \<noteq> []" "list_all is_ascii_digit ds"
    "z = [] \<or> \<not> is_ascii_digit (hd z)" "Ch CHR 0x0A \<notin> set z"
  shows "fullmatch_iso (d @ Ch CHR ''.'' # ds @ z) = Some (d, Ch CHR ''.'' # ds, z)"
proof -
  have len: "length d = 19"
    using match_template_length [OF assms(1)] by (simp add: iso_template_def)
  have "take 19 (d @ Ch CHR ''.'' # ds @ z) = d"
    "drop 19 (d @ Ch CHR ''.'' # ds @ z) = Ch CHR ''.'' # ds @ z"
    using len by simp_all
  then show ?thesis
    using assms takeWhile_digits [OF assms(3,4)] by (simp add: fullmatch_iso_def)
qed

lemma fullmatch_iso_shape:
  "\<not> match_template is_digit iso_template (take 19 s) \<Longrightarrow> fullmatch_iso s = None"
  by (simp add: fullmatch_iso_def)

lemma fullmatch_iso_Some:
  assumes "fullmatch_iso s = Some (d, g2, zone)"
  shows "match_template is_digit iso_template d" "s = d @ g2 @ zone"
    "\<exists>ds. g2 = Ch CHR ''.'' # ds \<and> ds \<noteq> [] \<and> list_all is_ascii_digit ds"
    "zone = [] \<or> \<not> is_ascii_digit (hd zone)" "Ch CHR 0x0A \<notin> set zone"
proof -
  obtain r where r: "drop 19 s = Ch CHR ''.'' # r" and m: "match_template is_digit iso_template (take 19 s)"
    and g: "d = take 19 s" "g2 = Ch CHR ''.'' # takeWhile is_ascii_digit r" "zone = dropWhile is_ascii_digit r"
    and ne: "takeWhile is_ascii_digit r \<noteq> []" and nl: "Ch CHR 0x0A \<notin> set (dropWhile is_ascii_digit r)"
    using assms by (auto simp: fullmatch_iso_def split: if_splits list.splits)
  show "match_template is_digit iso_template d"
    using m g(1) by simp
  have "s = take 19 s @ drop 19 s"
    by simp
  also have "\<dots> = d @ g2 @ zone"
    by (simp only: r g) simp
  finally show "s = d @ g2 @ zone" .
  have "list_all is_ascii_digit (takeWhile is_ascii_digit r)"
    by (simp add: list_all_iff) (meson set_takeWhileD)
  then show "\<exists>ds. g2 = Ch CHR ''.'' # ds \<and> ds \<noteq> [] \<and> list_all is_ascii_digit ds"
    using g(2) ne by blast
  show "zone = [] \<or> \<not> is_ascii_digit (hd zone)"
    unfolding g(3) using hd_dropWhile [of is_ascii_digit r] by blast
  show "Ch CHR 0x0A \<notin> set zone"
    using nl g(3) by simp
qed

section \<open>Fields of a date\<close>

lemma int_of_digits_snoc: "int_of_digits (ds @ [c]) = 10 * int_of_digits ds + digit_val c"
  by (simp add: int_of_digits_def)

lemma int_of_digits_pair: "int_of_digits [a, b] = 10 * digit_val a + digit_val b"
  by (simp add: int_of_digits_def)

lemma int_of_digits_bounds:
  "list_all is_digit ds \<Longrightarrow> 0 \<le> int_of_digits ds \<and> int_of_digits ds < 10 ^ length ds"
proof (induction ds rule: rev_induct)
  case Nil
  then show ?case by (simp add: int_of_digits_def)
next
  case (snoc c ds)
  then have ih: "0 \<le> int_of_digits ds" "int_of_digits ds < 10 ^ length ds"
    and c: "0 \<le> digit_val c" "digit_val c \<le> 9"
    using digit_val_bounds [of c] by simp_all
  have "int_of_digits ds + 1 \<le> 10 ^ length ds"
    using ih(2) by simp
  then have "10 * int_of_digits ds + 10 \<le> 10 * 10 ^ length ds"
    by linarith
  then show ?case
    using ih(1) c by (simp add: int_of_digits_snoc)
qed

lemma iso_template_digits:
  assumes "match_template dg iso_template d"
  shows "list_all dg (take 4 d)" "length (take 4 d) = 4"
    "list_all dg (take 2 (drop 5 d))" "length (take 2 (drop 5 d)) = 2"
    "list_all dg (take 2 (drop 8 d))" "length (take 2 (drop 8 d)) = 2"
    "list_all dg (take 2 (drop 11 d))" "length (take 2 (drop 11 d)) = 2"
    "list_all dg (take 2 (drop 14 d))" "length (take 2 (drop 14 d)) = 2"
    "list_all dg (take 2 (drop 17 d))" "length (take 2 (drop 17 d)) = 2"
  using assms by (elim iso_template_cases; simp)+

lemma iso_template_pairs:
  assumes "match_template dg iso_template d"
  shows "take 2 (drop 5 d) = [d ! 5, d ! 6]" "take 2 (drop 8 d) = [d ! 8, d ! 9]"
    "take 2 (drop 11 d) = [d ! 11, d ! 12]" "take 2 (drop 14 d) = [d ! 14, d ! 15]"
    "take 2 (drop 17 d) = [d ! 17, d ! 18]"
    "dg (d ! 5)" "dg (d ! 6)" "dg (d ! 8)" "dg (d ! 9)" "dg (d ! 11)" "dg (d ! 12)"
    "dg (d ! 14)" "dg (d ! 15)" "dg (d ! 17)" "dg (d ! 18)"
  using assms by (elim iso_template_cases; simp)+

text \<open>
  What the alternatives of a field make of its two digits: a range of the number
  that \<^verbatim>\<open>int()\<close> reads, and nothing but that range when the digits are \<^verbatim>\<open>0\<close> to \<^verbatim>\<open>9\<close>.
\<close>

lemma field_ranges:
  assumes "is_digit b"
  shows "month_field a b \<Longrightarrow> 1 \<le> int_of_digits [a, b] \<and> int_of_digits [a, b] \<le> 12"
    "day_field a b \<Longrightarrow> 1 \<le> int_of_digits [a, b] \<and> int_of_digits [a, b] \<le> 31"
    "hour_field a b \<Longrightarrow> 0 \<le> int_of_digits [a, b] \<and> int_of_digits [a, b] \<le> 23"
    "minute_field a b \<Longrightarrow> 0 \<le> int_of_digits [a, b] \<and> int_of_digits [a, b] \<le> 59"
    "second_field a b \<Longrightarrow> 0 \<le> int_of_digits [a, b] \<and> int_of_digits [a, b] \<le> 61"
  using digit_val_bounds [OF assms]
  by (auto simp: month_field_def day_field_def hour_field_def minute_field_def second_field_def
      in_class_def int_of_digits_pair)

lemma field_ranges_ascii:
  assumes "is_ascii_digit a" "is_ascii_digit b"
  shows "month_field a b = (1 \<le> int_of_digits [a, b] \<and> int_of_digits [a, b] \<le> 12)"
    "day_field a b = (1 \<le> int_of_digits [a, b] \<and> int_of_digits [a, b] \<le> 31)"
    "hour_field a b = (int_of_digits [a, b] \<le> 23)"
    "minute_field a b = (int_of_digits [a, b] \<le> 59)"
    "second_field a b = (int_of_digits [a, b] \<le> 61)"
proof -
  note va = ascii_digit_val_bounds [OF assms(1)]
  note vb = ascii_digit_val_bounds [OF assms(2)]
  note db = is_ascii_digit_is_digit [OF assms(2)]
  show "month_field a b = (1 \<le> int_of_digits [a, b] \<and> int_of_digits [a, b] \<le> 12)"
    using va vb assms by (auto simp: month_field_def in_class_def int_of_digits_pair)
  show "day_field a b = (1 \<le> int_of_digits [a, b] \<and> int_of_digits [a, b] \<le> 31)"
    using va vb assms db by (auto simp: day_field_def in_class_def int_of_digits_pair)
  show "hour_field a b = (int_of_digits [a, b] \<le> 23)"
    using va vb assms db by (auto simp: hour_field_def in_class_def int_of_digits_pair)
  show "minute_field a b = (int_of_digits [a, b] \<le> 59)"
    using va vb assms db by (auto simp: minute_field_def in_class_def int_of_digits_pair)
  show "second_field a b = (int_of_digits [a, b] \<le> 61)"
    using va vb assms db by (auto simp: second_field_def in_class_def int_of_digits_pair)
qed

lemma strptime_iso_Inr:
  assumes "strptime_iso d = Inr tm"
  shows "match_template is_digit iso_template d"
    "tm_year tm = int_of_digits (take 4 d)" "tm_mon tm = int_of_digits (take 2 (drop 5 d))"
    "tm_mday tm = int_of_digits (take 2 (drop 8 d))" "tm_hour tm = int_of_digits (take 2 (drop 11 d))"
    "tm_min tm = int_of_digits (take 2 (drop 14 d))" "tm_sec tm = int_of_digits (take 2 (drop 17 d))"
    "1 \<le> tm_year tm" "1 \<le> tm_mon tm" "tm_mon tm \<le> 12" "1 \<le> tm_mday tm"
    "tm_mday tm \<le> days_in_month (tm_year tm) (tm_mon tm)"
    "tm_hour tm \<le> 23" "tm_min tm \<le> 59" "tm_sec tm \<le> 61"
proof -
  have m: "match_template is_digit iso_template d"
    and f: "month_field (d ! 5) (d ! 6)" "day_field (d ! 8) (d ! 9)" "hour_field (d ! 11) (d ! 12)"
      "minute_field (d ! 14) (d ! 15)" "second_field (d ! 17) (d ! 18)"
    using assms by (auto simp: strptime_iso_def split: if_splits)
  note p = iso_template_pairs [OF m]
  show "match_template is_digit iso_template d"
    by (rule m)
  show v: "tm_year tm = int_of_digits (take 4 d)" "tm_mon tm = int_of_digits (take 2 (drop 5 d))"
    "tm_mday tm = int_of_digits (take 2 (drop 8 d))" "tm_hour tm = int_of_digits (take 2 (drop 11 d))"
    "tm_min tm = int_of_digits (take 2 (drop 14 d))" "tm_sec tm = int_of_digits (take 2 (drop 17 d))"
    "1 \<le> tm_year tm" "tm_mday tm \<le> days_in_month (tm_year tm) (tm_mon tm)"
    using assms m f by (auto simp: strptime_iso_def Let_def split: if_splits)
  show "1 \<le> tm_mon tm" "tm_mon tm \<le> 12"
    using field_ranges(1) [OF p(7) f(1)] by (simp_all add: v(2) p(1))
  show "1 \<le> tm_mday tm"
    using field_ranges(2) [OF p(9) f(2)] by (simp add: v(3) p(2))
  show "tm_hour tm \<le> 23"
    using field_ranges(3) [OF p(11) f(3)] by (simp add: v(4) p(3))
  show "tm_min tm \<le> 59"
    using field_ranges(4) [OF p(13) f(4)] by (simp add: v(5) p(4))
  show "tm_sec tm \<le> 61"
    using field_ranges(5) [OF p(15) f(5)] by (simp add: v(6) p(5))
qed

lemma strptime_iso_Inl: "strptime_iso d = Inl e \<Longrightarrow> e = ValueError"
  by (auto simp: strptime_iso_def Let_def split: if_splits)

text \<open>
  On a date and time with no digit but \<^verbatim>\<open>0\<close> to \<^verbatim>\<open>9\<close>, \<^verbatim>\<open>time.strptime\<close> accepts the
  dates and times of the calendar and no other.
\<close>

lemma strptime_iso_ascii:
  assumes "match_template is_ascii_digit iso_template d"
  shows "strptime_iso d =
     (if date_time_valid d
      then Inr \<lparr>tm_year = int_of_digits (take 4 d), tm_mon = int_of_digits (take 2 (drop 5 d)),
                tm_mday = int_of_digits (take 2 (drop 8 d)), tm_hour = int_of_digits (take 2 (drop 11 d)),
                tm_min = int_of_digits (take 2 (drop 14 d)), tm_sec = int_of_digits (take 2 (drop 17 d))\<rparr>
      else Inl ValueError)"
proof -
  note m = match_template_ascii [OF assms]
  note p = iso_template_pairs [OF assms]
  have dim: "days_in_month (int_of_digits (take 4 d)) (int_of_digits [d ! 5, d ! 6]) \<le> 31"
    by (simp add: days_in_month_def)
  have f: "month_field (d ! 5) (d ! 6)
      = (1 \<le> int_of_digits (take 2 (drop 5 d)) \<and> int_of_digits (take 2 (drop 5 d)) \<le> 12)"
    "day_field (d ! 8) (d ! 9)
      = (1 \<le> int_of_digits (take 2 (drop 8 d)) \<and> int_of_digits (take 2 (drop 8 d)) \<le> 31)"
    "hour_field (d ! 11) (d ! 12) = (int_of_digits (take 2 (drop 11 d)) \<le> 23)"
    "minute_field (d ! 14) (d ! 15) = (int_of_digits (take 2 (drop 14 d)) \<le> 59)"
    "second_field (d ! 17) (d ! 18) = (int_of_digits (take 2 (drop 17 d)) \<le> 61)"
    using field_ranges_ascii(1) [OF p(6,7)] field_ranges_ascii(2) [OF p(8,9)]
      field_ranges_ascii(3) [OF p(10,11)] field_ranges_ascii(4) [OF p(12,13)]
      field_ranges_ascii(5) [OF p(14,15)]
    by (simp_all only: p(1-5))
  show ?thesis
    unfolding strptime_iso_def date_time_valid_def Let_def f
    using m dim by (auto simp: p(1))
qed

lemma strptime_iso_fields:
  assumes "strptime_iso d = Inr tm"
  shows "1 \<le> tm_year tm \<and> tm_year tm \<le> 9999 \<and> 1 \<le> tm_mon tm \<and> tm_mon tm \<le> 12
    \<and> 1 \<le> tm_mday tm \<and> tm_mday tm \<le> 31
    \<and> 0 \<le> tm_hour tm \<and> tm_hour tm \<le> 23 \<and> 0 \<le> tm_min tm \<and> tm_min tm \<le> 59
    \<and> 0 \<le> tm_sec tm \<and> tm_sec tm \<le> 61"
proof -
  note f = strptime_iso_Inr [OF assms]
  note g = iso_template_digits [OF f(1)]
  have "tm_year tm < 10 ^ 4"
    using int_of_digits_bounds [OF g(1)] by (simp only: f(2) g(2))
  moreover have "0 \<le> tm_hour tm"
    using int_of_digits_bounds [OF g(7)] by (simp only: f(5))
  moreover have "0 \<le> tm_min tm"
    using int_of_digits_bounds [OF g(9)] by (simp only: f(6))
  moreover have "0 \<le> tm_sec tm"
    using int_of_digits_bounds [OF g(11)] by (simp only: f(7))
  moreover have "days_in_month (tm_year tm) (tm_mon tm) \<le> 31"
    by (simp add: days_in_month_def)
  ultimately show ?thesis
    using f(8-15) by simp
qed

lemma timegm_bounds:
  assumes "strptime_iso d = Inr tm"
  shows "\<bar>timegm tm\<bar> < 2 ^ 53"
proof -
  note b = strptime_iso_fields [OF assms]
  define z where "z = tm_year tm - 1"
  have z: "0 \<le> z" "z \<le> 9998"
    using b by (simp_all add: z_def)
  have q: "0 \<le> z div 4" "z div 4 \<le> z" "0 \<le> z div 100" "z div 100 \<le> z" "0 \<le> z div 400" "z div 400 \<le> z"
    using z by simp_all
  have y: "0 \<le> days_before_year (tm_year tm)" "days_before_year (tm_year tm) \<le> 367 * 9998"
    using z q unfolding days_before_year_def Let_def z_def [symmetric] by linarith+
  have mth: "0 \<le> days_before_month (tm_year tm) (tm_mon tm)" "days_before_month (tm_year tm) (tm_mon tm) \<le> 335"
    by (simp_all add: days_before_month_def days_before_month_tab_def)
  define days where "days = ymd_to_ord (tm_year tm) (tm_mon tm) 1 - epoch_ord + tm_mday tm - 1"
  have days: "- 719163 \<le> days" "days \<le> 367 * 9998 + 400"
    using y mth b unfolding days_def ymd_to_ord_def epoch_ord_def by linarith+
  have t: "timegm tm = 86400 * days + 3600 * tm_hour tm + 60 * tm_min tm + tm_sec tm"
    by (simp add: timegm_def Let_def days_def)
  have h: "0 \<le> tm_hour tm" "tm_hour tm \<le> 23" "0 \<le> tm_min tm" "tm_min tm \<le> 59"
    "0 \<le> tm_sec tm" "tm_sec tm \<le> 61"
    using b by simp_all
  have "- 62135683200 \<le> timegm tm" "timegm tm \<le> 317093788800"
    unfolding t using days h by linarith+
  then show ?thesis
    by simp
qed


section \<open>What \<^verbatim>\<open>strpSecs\<close> accepts\<close>

lemma zone_offset_Z: "zone_offset (latin ''Z'') = Inr 0"
  by (simp add: zone_offset_def latin_def)

lemma zone_offset_plus:
  "match_template is_ascii_digit ''####'' hhmm \<Longrightarrow> zone_offset (Ch CHR ''+'' # hhmm) = Inr (- 60 * zone_minutes hhmm)"
  by (erule zone_template_cases) (simp add: zone_offset_def fullmatch_zone_def zone_minutes_def)

lemma zone_offset_minus:
  "match_template is_ascii_digit ''####'' hhmm \<Longrightarrow> zone_offset (Ch CHR ''-'' # hhmm) = Inr (60 * zone_minutes hhmm)"
  by (erule zone_template_cases) (simp add: zone_offset_def fullmatch_zone_def zone_minutes_def)

lemma zone_minutes_bounds:
  assumes "match_template is_ascii_digit ''####'' hhmm"
  shows "0 \<le> zone_minutes hhmm \<and> zone_minutes hhmm \<le> 6039"
proof -
  from assms obtain a b c e where z: "hhmm = [a, b, c, e]"
    and dg: "is_ascii_digit a" "is_ascii_digit b" "is_ascii_digit c" "is_ascii_digit e"
    by (rule zone_template_cases)
  have "list_all is_digit [a, b]" "list_all is_digit [c, e]"
    using dg by (simp_all add: is_ascii_digit_is_digit)
  from this [THEN int_of_digits_bounds] show ?thesis
    unfolding zone_minutes_def z by simp
qed

lemma num_add_int_float:
  "float_of_int n = Inr x \<Longrightarrow> num_add (PyInt n) (PyFloat f) = Inr (PyFloat (fadd x f))"
  by (simp add: num_add_def)

lemma num_add_float_int:
  "float_of_int n = Inr y \<Longrightarrow> num_add (PyFloat x) (PyInt n) = Inr (PyFloat (fadd x y))"
  by (simp add: num_add_def)

lemma strpSecs_accepts:
  assumes fm: "fullmatch_iso s = Some (d, g2, zone)" and g2: "g2 \<noteq> []"
    and zo: "zone_offset zone = Inr off" and off: "\<bar>off\<bar> < 2 ^ 53"
    and tm: "strptime_iso d = Inr tm"
  shows "\<exists>secs fo. float_of_int (timegm tm) = Inr secs \<and> valof secs = of_int (timegm tm)
      \<and> float_of_int off = Inr fo \<and> valof fo = of_int off
      \<and> strpSecs s = Inr (PyFloat (fadd (fadd secs (float_of_fraction g2)) fo))"
proof -
  obtain m e where secs: "float_of_int (timegm tm) = Inr (Fin m e)" "valof (Fin m e) = of_int (timegm tm)"
    using float_of_int_exact [OF timegm_bounds [OF tm]] by blast
  obtain m' e' where fo: "float_of_int off = Inr (Fin m' e')" "valof (Fin m' e') = of_int off"
    using float_of_int_exact [OF off] by blast
  have "strpSecs_body d g2 zone = Inr (PyFloat (fadd (fadd (Fin m e) (float_of_fraction g2)) (Fin m' e')))"
    using g2 by (simp add: strpSecs_body_def zo tm num_add_int_float [OF secs(1)] num_add_float_int [OF fo(1)])
  then have "strpSecs s = Inr (PyFloat (fadd (fadd (Fin m e) (float_of_fraction g2)) (Fin m' e')))"
    by (simp add: strpSecs_def fm)
  with secs fo show ?thesis
    by blast
qed

lemma strpSecs_rejects_date:
  assumes fm: "fullmatch_iso s = Some (d, g2, zone)"
    and zo: "zone_offset zone = Inr off"
    and tm: "strptime_iso d = Inl e"
  shows "strpSecs s = Inl ValueError"
  using strptime_iso_Inl [OF tm] tm by (simp add: strpSecs_def fm strpSecs_body_def zo)

lemma strpSecs_no_shape:
  "\<not> match_template is_digit iso_template (take 19 s) \<Longrightarrow> strpSecs s = Inl ValueError"
  by (simp add: strpSecs_def fullmatch_iso_shape)

lemma zone_shapes:
  assumes "zone = latin ''Z'' \<or> fullmatch_zone zone"
  shows "zone \<noteq> []" "\<not> is_ascii_digit (hd zone)" "Ch CHR 0x0A \<notin> set zone"
    "\<exists>off. zone_offset zone = Inr off \<and> \<bar>off\<bar> < 2 ^ 53"
proof -
  show "zone \<noteq> []" "\<not> is_ascii_digit (hd zone)"
    using assms by (auto simp: fullmatch_zone_def latin_def split: list.splits)
  show "Ch CHR 0x0A \<notin> set zone"
    using assms
    by (auto simp: fullmatch_zone_def latin_def Let_def match_template_Cons_iff match_template_Nil_iff
        split: list.splits)
  show "\<exists>off. zone_offset zone = Inr off \<and> \<bar>off\<bar> < 2 ^ 53"
  proof (cases "zone = latin ''Z''")
    case True
    then show ?thesis by (simp add: zone_offset_Z)
  next
    case False
    then obtain c hhmm where z: "zone = c # hhmm" "c = Ch CHR ''+'' \<or> c = Ch CHR ''-''"
      "match_template is_ascii_digit ''####'' hhmm"
      using assms by (auto simp: fullmatch_zone_def split: list.splits)
    have "0 \<le> zone_minutes hhmm \<and> zone_minutes hhmm \<le> 6039"
      by (rule zone_minutes_bounds [OF z(3)])
    then have "\<bar>- 60 * zone_minutes hhmm\<bar> < 2 ^ 53" "\<bar>60 * zone_minutes hhmm\<bar> < 2 ^ 53"
      by simp_all
    then show ?thesis
      using z(2) zone_offset_plus [OF z(3)] zone_offset_minus [OF z(3)] unfolding z(1) by auto
  qed
qed

lemma iso_grammar_with_fraction:
  assumes "match_template is_ascii_digit iso_template d" "ds \<noteq> []" "list_all is_ascii_digit ds"
    "zone = latin ''Z'' \<or> fullmatch_zone zone"
  shows "iso_grammar (d @ Ch CHR ''.'' # ds @ zone)"
proof -
  have len: "length d = 19"
    using match_template_length [OF assms(1)] by (simp add: iso_template_def)
  have z: "zone = [] \<or> \<not> is_ascii_digit (hd zone)"
    using zone_shapes(2) [OF assms(4)] by simp
  have "take 19 (d @ Ch CHR ''.'' # ds @ zone) = d"
    "drop 19 (d @ Ch CHR ''.'' # ds @ zone) = Ch CHR ''.'' # ds @ zone"
    using len by simp_all
  then show ?thesis
    using assms takeWhile_digits [OF assms(3) z] by (simp add: iso_grammar_def)
qed


section \<open>The claims on \<^verbatim>\<open>strpSecs\<close>\<close>

text \<open>
  C7. For every text made of a date and time \<open>d\<close> that \<^verbatim>\<open>time.strptime\<close> accepts, a
  fraction and a zone, \<^verbatim>\<open>strpSecs\<close> returns the float sum of \<^verbatim>\<open>calendar.timegm\<close> of
  \<open>d\<close> (the reading of \<open>d\<close> as UTC), the fraction and the offset: minus
  \<open>HH * 60 + MM\<close> minutes for the zone \<^verbatim>\<open>+HHMM\<close>, plus as many for \<^verbatim>\<open>-HHMM\<close>, and zero
  for \<^verbatim>\<open>Z\<close>. The integers are converted to floats exactly.
\<close>

theorem strpSecs_zone_offset:
  assumes "match_template is_digit iso_template d" and "ds \<noteq> []" and "list_all is_ascii_digit ds"
    and "match_template is_ascii_digit ''####'' hhmm" and "strptime_iso d = Inr tm"
  shows "\<exists>secs om op.
      float_of_int (timegm tm) = Inr secs \<and> valof secs = of_int (timegm tm)
      \<and> float_of_int (- 60 * zone_minutes hhmm) = Inr om \<and> valof om = of_int (- 60 * zone_minutes hhmm)
      \<and> float_of_int (60 * zone_minutes hhmm) = Inr op \<and> valof op = of_int (60 * zone_minutes hhmm)
      \<and> strpSecs (d @ Ch CHR ''.'' # ds @ Ch CHR ''+'' # hhmm)
          = Inr (PyFloat (fadd (fadd secs (float_of_fraction (Ch CHR ''.'' # ds))) om))
      \<and> strpSecs (d @ Ch CHR ''.'' # ds @ Ch CHR ''-'' # hhmm)
          = Inr (PyFloat (fadd (fadd secs (float_of_fraction (Ch CHR ''.'' # ds))) op))
      \<and> strpSecs (d @ Ch CHR ''.'' # ds @ latin ''Z'')
          = Inr (PyFloat (fadd (fadd secs (float_of_fraction (Ch CHR ''.'' # ds))) fzero))"
proof -
  have mb: "0 \<le> zone_minutes hhmm \<and> zone_minutes hhmm \<le> 6039"
    by (rule zone_minutes_bounds [OF assms(4)])
  then have small: "\<bar>- 60 * zone_minutes hhmm\<bar> < 2 ^ 53" "\<bar>60 * zone_minutes hhmm\<bar> < 2 ^ 53"
    "\<bar>0 :: int\<bar> < 2 ^ 53"
    by simp_all
  have nd: "\<not> is_ascii_digit (Ch CHR ''+'')" "\<not> is_ascii_digit (Ch CHR ''-'')"
    "\<not> is_ascii_digit (Ch CHR ''Z'')"
    by simp_all
  have nl: "Ch CHR 0x0A \<notin> set hhmm"
    using assms(4) by (elim zone_template_cases) auto
  have fp: "fullmatch_iso (d @ Ch CHR ''.'' # ds @ Ch CHR ''+'' # hhmm)
      = Some (d, Ch CHR ''.'' # ds, Ch CHR ''+'' # hhmm)"
    using nd nl by (intro fullmatch_iso_groups assms) simp_all
  have fm: "fullmatch_iso (d @ Ch CHR ''.'' # ds @ Ch CHR ''-'' # hhmm)
      = Some (d, Ch CHR ''.'' # ds, Ch CHR ''-'' # hhmm)"
    using nd nl by (intro fullmatch_iso_groups assms) simp_all
  have fz: "fullmatch_iso (d @ Ch CHR ''.'' # ds @ latin ''Z'') = Some (d, Ch CHR ''.'' # ds, latin ''Z'')"
    using nd by (intro fullmatch_iso_groups assms) (simp_all add: latin_def)
  have g2: "Ch CHR ''.'' # ds \<noteq> []"
    by simp
  from strpSecs_accepts [OF fp g2 zone_offset_plus [OF assms(4)] small(1) assms(5)]
  obtain secs om where p: "float_of_int (timegm tm) = Inr secs" "valof secs = of_int (timegm tm)"
    "float_of_int (- 60 * zone_minutes hhmm) = Inr om" "valof om = of_int (- 60 * zone_minutes hhmm)"
    "strpSecs (d @ Ch CHR ''.'' # ds @ Ch CHR ''+'' # hhmm)
      = Inr (PyFloat (fadd (fadd secs (float_of_fraction (Ch CHR ''.'' # ds))) om))"
    by blast
  from strpSecs_accepts [OF fm g2 zone_offset_minus [OF assms(4)] small(2) assms(5)]
  obtain op where m: "float_of_int (60 * zone_minutes hhmm) = Inr op" "valof op = of_int (60 * zone_minutes hhmm)"
    "strpSecs (d @ Ch CHR ''.'' # ds @ Ch CHR ''-'' # hhmm)
      = Inr (PyFloat (fadd (fadd secs (float_of_fraction (Ch CHR ''.'' # ds))) op))"
    using p(1) by auto
  from strpSecs_accepts [OF fz g2 zone_offset_Z small(3) assms(5)]
  have z: "strpSecs (d @ Ch CHR ''.'' # ds @ latin ''Z'')
      = Inr (PyFloat (fadd (fadd secs (float_of_fraction (Ch CHR ''.'' # ds))) fzero))"
    using p(1) by (auto simp: float_of_int_def round_frac_def fzero_def)
  from p m z show ?thesis
    by blast
qed

text \<open>
  The instance of the specification: \<^verbatim>\<open>2023-11-14T22:13:20\<close> read as UTC is
  1700000000, the zone \<^verbatim>\<open>+0500\<close> is 300 minutes, and the instant returned is
  1699982000.123, that is 18000 seconds less than for \<^verbatim>\<open>Z\<close>.
\<close>

lemmas strpSecs_eval =
  strpSecs_def strpSecs_body_def strptime_iso_def timegm_def ymd_to_ord_def
  days_before_year_def days_before_month_def days_before_month_tab_def days_in_month_def
  is_leap_def epoch_ord_def num_add_def month_field_def day_field_def hour_field_def
  minute_field_def second_field_def in_class_def

theorem strpSecs_zone_offset_witness:
  "match_template is_digit iso_template (latin ''2023-11-14T22:13:20'') \<and> latin ''123'' \<noteq> []
   \<and> list_all is_ascii_digit (latin ''123'')
   \<and> match_template is_ascii_digit ''####'' (latin ''0500'')
   \<and> strptime_iso (latin ''2023-11-14T22:13:20'')
       = Inr \<lparr>tm_year = 2023, tm_mon = 11, tm_mday = 14, tm_hour = 22, tm_min = 13, tm_sec = 20\<rparr>
   \<and> timegm \<lparr>tm_year = 2023, tm_mon = 11, tm_mday = 14, tm_hour = 22, tm_min = 13, tm_sec = 20\<rparr> = 1700000000
   \<and> zone_minutes (latin ''0500'') = 300
   \<and> strpSecs (latin ''2023-11-14T22:13:20.123+0500'') = Inr (PyFloat (float_of_decimal 1699982000123 3))
   \<and> strpSecs (latin ''2023-11-14T22:13:20.123-0500'') = Inr (PyFloat (float_of_decimal 1700018000123 3))
   \<and> strpSecs (latin ''2023-11-14T22:13:20.123Z'') = Inr (PyFloat (float_of_decimal 1700000000123 3))"
  using strpSecs_zone_offset [of "latin ''2023-11-14T22:13:20''" "latin ''123''" "latin ''0500''"
      "\<lparr>tm_year = 2023, tm_mon = 11, tm_mday = 14, tm_hour = 22, tm_min = 13, tm_sec = 20\<rparr>"]
  by (simp add: strpSecs_eval zone_minutes_def text_eval float_eval)

section \<open>What \<^verbatim>\<open>strpSecs\<close> refuses\<close>

lemma fullmatch_iso_grammar:
  assumes "fullmatch_iso s = Some (d, g2, zone)" "match_template is_ascii_digit iso_template d"
    "fullmatch_zone zone"
  shows "iso_grammar s"
proof -
  note f = fullmatch_iso_Some [OF assms(1)]
  obtain ds where ds: "g2 = Ch CHR ''.'' # ds" "ds \<noteq> []" "list_all is_ascii_digit ds"
    using f(3) by blast
  have "iso_grammar (d @ Ch CHR ''.'' # ds @ zone)"
    using assms(2,3) ds(2,3) by (intro iso_grammar_with_fraction) simp_all
  then show ?thesis
    by (simp add: f(2) ds(1))
qed

lemma strpSecs_bad_zone:
  assumes "fullmatch_iso s = Some (d, g2, z0 # zs)" "z0 \<noteq> Ch CHR ''Z''" "\<not> fullmatch_zone (z0 # zs)"
  shows "strpSecs s = Inl ValueError"
proof -
  have "zone_offset (z0 # zs) = Inl ValueError"
    using assms(2,3) by (simp add: zone_offset_def)
  then show ?thesis
    by (simp add: strpSecs_def assms(1) strpSecs_body_def)
qed

lemma strpSecs_refuses:
  assumes "\<not> iso_grammar s" "\<not> let_through s"
  shows "strpSecs s = Inl ValueError"
proof (cases "fullmatch_iso s")
  case None
  then show ?thesis
    by (simp add: strpSecs_def)
next
  case (Some g)
  then obtain d g2 zone where g: "fullmatch_iso s = Some (d, g2, zone)"
    by (cases g) auto
  obtain z0 zs where z: "zone = z0 # zs" "z0 \<noteq> Ch CHR ''Z''"
    and w: "\<not> fullmatch_zone zone \<or> match_template is_ascii_digit iso_template d"
    using assms(2) by (auto simp: let_through_def g split: list.splits)
  have "\<not> fullmatch_zone zone"
    using w fullmatch_iso_grammar [OF g] assms(1) by blast
  then show ?thesis
    using strpSecs_bad_zone [of s d g2 z0 zs] g z by simp
qed

lemma strpSecs_calendar:
  assumes "match_template is_ascii_digit iso_template d" "ds \<noteq> []" "list_all is_ascii_digit ds"
    "zone = latin ''Z'' \<or> fullmatch_zone zone"
  shows "if date_time_valid d then \<exists>x. strpSecs (d @ Ch CHR ''.'' # ds @ zone) = Inr (PyFloat x)
         else strpSecs (d @ Ch CHR ''.'' # ds @ zone) = Inl ValueError"
proof -
  have fm: "fullmatch_iso (d @ Ch CHR ''.'' # ds @ zone) = Some (d, Ch CHR ''.'' # ds, zone)"
    using assms(2,3) zone_shapes(2,3) [OF assms(4)] match_template_ascii [OF assms(1)]
    by (intro fullmatch_iso_groups) simp_all
  obtain off where off: "zone_offset zone = Inr off" "\<bar>off\<bar> < 2 ^ 53"
    using zone_shapes(4) [OF assms(4)] by blast
  show ?thesis
  proof (cases "date_time_valid d")
    case True
    then obtain tm where tm: "strptime_iso d = Inr tm"
      by (simp add: strptime_iso_ascii [OF assms(1)])
    have "Ch CHR ''.'' # ds \<noteq> []"
      by simp
    from strpSecs_accepts [OF fm this off tm] show ?thesis
      using True by auto
  next
    case False
    then have "strptime_iso d = Inl ValueError"
      by (simp add: strptime_iso_ascii [OF assms(1)])
    from strpSecs_rejects_date [OF fm off(1) this] show ?thesis
      using False by simp
  qed
qed

text \<open>
  C1, as the code has it. The digits of the grammar are \<^verbatim>\<open>0\<close> to \<^verbatim>\<open>9\<close>. For every
  text made of a date and time \<open>d\<close> of the shape
  \<^verbatim>\<open>\d{4}-\d{2}-\d{2}T\d{2}:\d{2}:\d{2}\<close>, a fraction \<^verbatim>\<open>\.\d+\<close> and a zone \<^verbatim>\<open>Z\<close> or
  \<^verbatim>\<open>[+-]\d{4}\<close> (a text of the grammar), \<^verbatim>\<open>strpSecs\<close> returns a float when \<open>d\<close> is a
  date and a time of the calendar, and raises \<^verbatim>\<open>ValueError\<close> when it is not. And it
  raises \<^verbatim>\<open>ValueError\<close> for every text that is not of the grammar, but for those
  that its pattern matches and in which nothing follows the fraction, or what
  follows starts with \<^verbatim>\<open>Z\<close>, or a zone \<^verbatim>\<open>+HHMM\<close> or \<^verbatim>\<open>-HHMM\<close> follows and the date and
  time have a decimal digit other than \<^verbatim>\<open>0\<close> to \<^verbatim>\<open>9\<close>.
\<close>

theorem strpSecs_grammar:
  "(match_template is_ascii_digit iso_template d \<and> ds \<noteq> [] \<and> list_all is_ascii_digit ds
      \<and> (zone = latin ''Z'' \<or> fullmatch_zone zone)
    \<longrightarrow> iso_grammar (d @ Ch CHR ''.'' # ds @ zone)
        \<and> (if date_time_valid d then \<exists>x. strpSecs (d @ Ch CHR ''.'' # ds @ zone) = Inr (PyFloat x)
           else strpSecs (d @ Ch CHR ''.'' # ds @ zone) = Inl ValueError))
   \<and> (\<not> iso_grammar s \<and> \<not> let_through s \<longrightarrow> strpSecs s = Inl ValueError)"
proof (intro conjI impI)
  assume h: "match_template is_ascii_digit iso_template d \<and> ds \<noteq> [] \<and> list_all is_ascii_digit ds
      \<and> (zone = latin ''Z'' \<or> fullmatch_zone zone)"
  show "iso_grammar (d @ Ch CHR ''.'' # ds @ zone)"
    using h by (intro iso_grammar_with_fraction) simp_all
  show "if date_time_valid d then \<exists>x. strpSecs (d @ Ch CHR ''.'' # ds @ zone) = Inr (PyFloat x)
        else strpSecs (d @ Ch CHR ''.'' # ds @ zone) = Inl ValueError"
    using h by (intro strpSecs_calendar) simp_all
next
  assume "\<not> iso_grammar s \<and> \<not> let_through s"
  then show "strpSecs s = Inl ValueError"
    by (intro strpSecs_refuses) simp_all
qed

text \<open>
  The instances: \<^verbatim>\<open>2023-11-14T22:13:20.5-0430\<close> is read as 1700016200.5, and
  \<^verbatim>\<open>2023-11-14T22:13:20.5+05:00\<close>, whose zone is not of the grammar, is refused.
\<close>

theorem strpSecs_grammar_witness:
  "match_template is_ascii_digit iso_template (latin ''2023-11-14T22:13:20'') \<and> latin ''5'' \<noteq> []
   \<and> list_all is_ascii_digit (latin ''5'')
   \<and> fullmatch_zone (latin ''-0430'')
   \<and> iso_grammar (latin ''2023-11-14T22:13:20.5-0430'')
   \<and> date_time_valid (latin ''2023-11-14T22:13:20'')
   \<and> strpSecs (latin ''2023-11-14T22:13:20.5-0430'') = Inr (PyFloat (float_of_decimal 17000162005 1))
   \<and> \<not> iso_grammar (latin ''2023-11-14T22:13:20.5+05:00'')
   \<and> \<not> let_through (latin ''2023-11-14T22:13:20.5+05:00'')
   \<and> strpSecs (latin ''2023-11-14T22:13:20.5+05:00'') = Inl ValueError"
  using strpSecs_grammar [of "latin ''2023-11-14T22:13:20''" "latin ''5''" "latin ''-0430''"
      "latin ''2023-11-14T22:13:20.5+05:00''"]
  by (simp add: strpSecs_eval iso_grammar_def let_through_def date_time_valid_def text_eval float_eval)

text \<open>
  The claim as the specification words it fails five ways. A text of the grammar
  with the 30th of February is refused. A text of the grammar with no fraction is
  refused: the pattern of \<^verbatim>\<open>strpSecs\<close> has \<^verbatim>\<open>(\.[0-9]+)\<close> with no \<^verbatim>\<open>?\<close>. A text with
  a fraction and no zone, which is not of the grammar, raises \<^verbatim>\<open>IndexError\<close>, not
  \<^verbatim>\<open>ValueError\<close>. A text whose zone only starts with \<^verbatim>\<open>Z\<close>, which is not of the
  grammar, is accepted. And so is a text whose year is written with the
  ARABIC-INDIC digits two, zero, two and three: the \<^verbatim>\<open>\d\<close> of the pattern and of
  \<^verbatim>\<open>time.strptime\<close> takes them, where the \<^verbatim>\<open>[0-9]\<close> of the fraction and of the zone
  would not.
\<close>

theorem strpSecs_grammar_counterexample:
  "iso_grammar (latin ''2023-02-30T22:13:20.5Z'')
   \<and> strpSecs (latin ''2023-02-30T22:13:20.5Z'') = Inl ValueError
   \<and> iso_grammar (latin ''2023-11-14T22:13:20Z'')
   \<and> strpSecs (latin ''2023-11-14T22:13:20Z'') = Inl ValueError
   \<and> \<not> iso_grammar (latin ''2023-11-14T22:13:20.5'')
   \<and> strpSecs (latin ''2023-11-14T22:13:20.5'') = Inl IndexError
   \<and> \<not> iso_grammar (latin ''2023-11-14T22:13:20.5Zulu'')
   \<and> strpSecs (latin ''2023-11-14T22:13:20.5Zulu'') = Inr (PyFloat (float_of_decimal 17000000005 1))
   \<and> \<not> iso_grammar ([Nd 2, Nd 0, Nd 2, Nd 3] @ latin ''-11-14T22:13:20.5Z'')
   \<and> strpSecs ([Nd 2, Nd 0, Nd 2, Nd 3] @ latin ''-11-14T22:13:20.5Z'')
       = Inr (PyFloat (float_of_decimal 17000000005 1))"
  by (simp add: strpSecs_eval iso_grammar_def text_eval float_eval)


section \<open>The claim that \<^verbatim>\<open>strfTime\<close> never raises\<close>

lemma strfTime_text_IndexError:
  "strfTime rt (PyStr (latin ''2023-11-14T22:13:20.5'')) fmt millis = Inl IndexError"
  by (simp add: strfTime_def strfTime_body_def strpSecs_def strpSecs_body_def text_eval)

lemma strfTime_NaN: "strfTime rt (PyFloat NaN) fmt millis = Inl ValueError"
  by (simp add: strfTime_def strfTime_body_def fromtimestamp_def timestamp_split_def)

lemma float_1e12: "float_of_decimal 1000000000000 0 = Fin 8192000000000000 (- 13)"
  by (simp add: float_eval)

lemma split_1e12: "timestamp_split (PyFloat (Fin 8192000000000000 (- 13))) = Inr (1000000000000, 0)"
  by (simp add: timestamp_split_def float_eval)

lemma year_1e12: "dt_year (civil_of_seconds 1000000000000 0) = 33658"
  by (simp add: civil_of_seconds_def ord_to_ymd_def epoch_ord_def Let_def
    days_before_month_def days_before_month_tab_def days_in_month_def is_leap_def)

lemma fromtimestamp_1e12:
  "fromtimestamp rt (PyFloat (float_of_decimal 1000000000000 0)) = Inl ValueError"
  by (simp add: fromtimestamp_def float_1e12 split_1e12 year_1e12)

lemma strfTime_1e12:
  "strfTime rt (PyFloat (float_of_decimal 1000000000000 0)) fmt millis = Inl ValueError"
  by (simp add: strfTime_def strfTime_body_def fromtimestamp_1e12)

text \<open>
  C3. \<^verbatim>\<open>strfTime\<close> is to return a text for every float, integer or text, and a
  text that \<^verbatim>\<open>strpSecs\<close> cannot parse unchanged. It does not: on a text with a
  fraction and no zone, \<^verbatim>\<open>strpSecs\<close> raises \<^verbatim>\<open>IndexError\<close>, which neither
  \<^verbatim>\<open>except ValueError\<close> nor \<^verbatim>\<open>except OSError\<close> catches; and the \<^verbatim>\<open>ValueError\<close> of
  \<^verbatim>\<open>datetime.fromtimestamp\<close> for a NaN, or for a float beyond the year 9999, leaves
  the float branch the same way.
\<close>

theorem strfTime_propagates_IndexError:
  "strpSecs (latin ''2023-11-14T22:13:20.5'') = Inl IndexError
   \<and> strfTime rt (PyStr (latin ''2023-11-14T22:13:20.5'')) fmt millis = Inl IndexError
   \<and> strfTime rt (PyFloat NaN) fmt millis = Inl ValueError
   \<and> strfTime rt (PyFloat (float_of_decimal 1000000000000 0)) fmt millis = Inl ValueError"
  using strfTime_text_IndexError strfTime_NaN strfTime_1e12
  by (simp add: strpSecs_def strpSecs_body_def text_eval)


section \<open>Rounding to the nearest float and to the nearest integer\<close>

lemma rne_div_nonneg: "0 \<le> n \<Longrightarrow> 0 < d \<Longrightarrow> 0 \<le> rne_div n d"
  by (simp add: rne_div_def Let_def pos_imp_zdiv_nonneg_iff)

lemma rne_div_error:
  assumes "0 < d"
  shows "\<bar>2 * (rne_div n d * d - n)\<bar> \<le> d"
proof -
  define k where "k = n div d"
  define r where "r = n mod d"
  have n: "n = k * d + r"
    by (simp add: k_def r_def)
  have r: "0 \<le> r" "r < d"
    using assms by (simp_all add: r_def)
  have "rne_div n d = k \<or> rne_div n d = k + 1"
    by (simp add: rne_div_def Let_def k_def)
  moreover have "rne_div n d = k \<Longrightarrow> 2 * r \<le> d"
    by (auto simp: rne_div_def Let_def k_def r_def split: if_splits)
  moreover have "rne_div n d = k + 1 \<Longrightarrow> d \<le> 2 * r"
    by (auto simp: rne_div_def Let_def k_def r_def split: if_splits)
  ultimately show ?thesis
    using r unfolding n by (auto simp: algebra_simps)
qed

lemma rne_div_scale:
  assumes "0 < c"
  shows "rne_div (c * n) (c * d) = rne_div n d"
proof -
  have "(c * n) div (c * d) = n div d" "(c * n) mod (c * d) = c * (n mod d)"
    using assms by simp_all
  moreover have "2 * (c * (n mod d)) < c * d \<longleftrightarrow> 2 * (n mod d) < d"
    using assms by (simp add: mult.left_commute [of 2 c])
  moreover have "c * d < 2 * (c * (n mod d)) \<longleftrightarrow> d < 2 * (n mod d)"
    using assms by (simp add: mult.left_commute [of 2 c])
  ultimately show ?thesis
    by (simp add: rne_div_def Let_def)
qed

lemma bitlen_mono: "0 < a \<Longrightarrow> a \<le> b \<Longrightarrow> bitlen a \<le> bitlen b"
  by (simp add: bitlen_def floorlog_mono)

lemma ilog2_frac_neg:
  assumes "0 < N" "N < D"
  shows "ilog2_frac N D \<le> - 1"
proof -
  have "bitlen N \<le> bitlen D"
    using assms by (intro bitlen_mono) simp_all
  then show ?thesis
    using assms by (auto simp: ilog2_frac_def Let_def)
qed

lemma round_pos_small:
  assumes "0 < N" "N < D"
  shows "\<exists>E m0 m' e'. 53 \<le> E \<and> 0 \<le> m0 \<and> \<bar>2 * (m0 * D - N * 2 ^ E)\<bar> \<le> D
     \<and> round_pos N D = Some (m', e') \<and> e' < 0 \<and> 0 \<le> m'
     \<and> (\<forall>c. rne_div (m' * c) (2 ^ nat (- e')) = rne_div (m0 * c) (2 ^ E))"
proof -
  define e0 where "e0 = max (- 1074) (ilog2_frac N D - 52)"
  define E where "E = nat (- e0)"
  define m0 where "m0 = rne_div (N * 2 ^ E) D"
  have e0: "- 1074 \<le> e0" "e0 \<le> - 53"
    using ilog2_frac_neg [OF assms] by (simp_all add: e0_def)
  have E: "53 \<le> E" "int E = - e0"
    using e0 by (simp_all add: E_def)
  have Dpos: "0 < D"
    using assms by simp
  have m0: "0 \<le> m0"
    unfolding m0_def using assms by (intro rne_div_nonneg) simp_all
  have err: "\<bar>2 * (m0 * D - N * 2 ^ E)\<bar> \<le> D"
    unfolding m0_def by (rule rne_div_error [OF Dpos])
  have rp: "round_pos N D =
      (if 971 < (if m0 = 2 ^ 53 then e0 + 1 else e0) then None
       else Some (if m0 = 2 ^ 53 then 2 ^ 52 else m0, if m0 = 2 ^ 53 then e0 + 1 else e0))"
    using e0 by (simp add: round_pos_def Let_def e0_def [symmetric] m0_def E_def)
  show ?thesis
  proof (cases "m0 = 2 ^ 53")
    case False
    then have "round_pos N D = Some (m0, e0)"
      using e0 by (simp add: rp)
    moreover have "\<forall>c. rne_div (m0 * c) (2 ^ nat (- e0)) = rne_div (m0 * c) (2 ^ E)"
      by (simp add: E_def)
    ultimately show ?thesis
      using E(1) m0 err e0 by (intro exI [of _ E] exI [of _ m0] exI [of _ e0]) simp
  next
    case True
    then have r: "round_pos N D = Some (2 ^ 52, e0 + 1)"
      using e0 by (simp add: rp)
    have EE: "E = Suc (nat (- (e0 + 1)))"
      using e0 by (simp add: E_def)
    have "\<forall>c. rne_div (2 ^ 52 * c) (2 ^ nat (- (e0 + 1))) = rne_div (m0 * c) (2 ^ E)"
    proof
      fix c :: int
      have "rne_div (m0 * c) (2 ^ E) = rne_div (2 * (2 ^ 52 * c)) (2 * 2 ^ nat (- (e0 + 1)))"
        by (simp add: True EE)
      also have "\<dots> = rne_div (2 ^ 52 * c) (2 ^ nat (- (e0 + 1)))"
        by (rule rne_div_scale) simp
      finally show "rne_div (2 ^ 52 * c) (2 ^ nat (- (e0 + 1))) = rne_div (m0 * c) (2 ^ E)"
        by simp
    qed
    then show ?thesis
      using E(1) m0 err e0 r
      by (intro exI [of _ E] exI [of _ m0] exI [of _ "2 ^ 52"] exI [of _ "e0 + 1"]) simp
  qed
qed

lemma dec_of_nat_length:
  assumes "n < 1000"
  shows "1 \<le> length (dec_of_nat n) \<and> length (dec_of_nat n) \<le> 3"
proof -
  consider "n < 10" | "10 \<le> n" "n < 100" | "100 \<le> n"
    by linarith
  then show ?thesis
  proof cases
    case 1
    then show ?thesis by (simp add: dec_of_nat.simps [of n])
  next
    case 2
    then have "n div 10 < 10" by simp
    then show ?thesis
      using 2 by (simp add: dec_of_nat.simps [of n] dec_of_nat.simps [of "n div 10"])
  next
    case 3
    then have a: "\<not> n div 10 < 10" "n div 10 div 10 < 10"
      using assms by simp_all
    show ?thesis
      using 3 a
      by (simp add: dec_of_nat.simps [of n] dec_of_nat.simps [of "n div 10"]
          dec_of_nat.simps [of "n div 10 div 10"])
  qed
qed

lemma last4_millis:
  assumes "0 \<le> n" "n \<le> 999"
  shows "last4 (dec_of_int (n div 1000) @ [Ch CHR ''.''] @ zero_pad 3 (dec_of_int (n mod 1000)))
    = Ch CHR ''.'' # zero_pad 3 (dec_of_int n)"
proof -
  have d: "n div 1000 = 0" "n mod 1000 = n"
    using assms by simp_all
  have "nat n < 1000"
    using assms by simp
  from dec_of_nat_length [OF this] have "length (zero_pad 3 (dec_of_int n)) = 3"
    using assms(1) by (simp add: zero_pad_def dec_of_int_def)
  moreover have "dec_of_int 0 = [Ch CHR ''0'']"
    by (simp add: dec_of_int_def dec_of_nat.simps [of 0] digit_char_def latin_def)
  ultimately show ?thesis
    by (simp add: d last4_def)
qed

lemma millis_suffix_pos:
  assumes N: "0 < N" "N < D" and rel: "N * 1000000 = us * D" and us: "us < 999500"
  shows "\<exists>n. 0 \<le> n \<and> n \<le> 999 \<and> \<bar>1000 * n - us\<bar> \<le> 500
     \<and> last4 (format_3f (round_frac N D)) = Ch CHR ''.'' # zero_pad 3 (dec_of_int n)"
proof -
  from round_pos_small [OF N] obtain E m0 m' e' where
    E: "53 \<le> E" and m0: "0 \<le> m0" and err: "\<bar>2 * (m0 * D - N * 2 ^ E)\<bar> \<le> D"
    and rp: "round_pos N D = Some (m', e')" and e': "e' < 0" and m': "0 \<le> m'"
    and sc: "\<forall>c. rne_div (m' * c) (2 ^ nat (- e')) = rne_div (m0 * c) (2 ^ E)"
    by blast
  define n where "n = rne_div (m0 * 1000) (2 ^ E)"
  have Dpos: "0 < D"
    using N by simp
  have rf: "round_frac N D = Fin m' e'"
    using N(1) by (simp add: round_frac_def rp)
  have n0: "0 \<le> n"
    unfolding n_def using m0 by (intro rne_div_nonneg) simp_all
  have A: "\<bar>2 * (n * 2 ^ E - m0 * 1000)\<bar> \<le> 2 ^ E"
    unfolding n_def by (rule rne_div_error) simp
  have big: "(1000000 :: int) < 2 ^ E"
  proof -
    have "(1000000 :: int) < 2 ^ 53" by simp
    also have "(2::int) ^ 53 \<le> 2 ^ E"
      using E by (intro power_increasing) simp_all
    finally show ?thesis .
  qed
  have key: "2 ^ E * D * (1000 * n - us) = 1000 * D * (n * 2 ^ E - m0 * 1000) + 1000000 * (m0 * D - N * 2 ^ E)"
  proof -
    have "1000000 * (N * 2 ^ E) = (N * 1000000) * 2 ^ E"
      by simp
    also have "\<dots> = us * D * 2 ^ E"
      by (simp only: rel)
    finally show ?thesis
      by (simp add: algebra_simps)
  qed
  define P where "P = (2 :: int) ^ E"
  define a where "a = n * P - m0 * 1000"
  define b where "b = m0 * D - N * P"
  define t where "t = 1000 * n - us"
  have Ppos: "0 < P" "1000000 < P"
    using big by (simp_all add: P_def)
  have ab: "\<bar>2 * a\<bar> \<le> P" "\<bar>2 * b\<bar> \<le> D" "P * D * t = 1000 * D * a + 1000000 * b"
    using A err key by (simp_all add: a_def b_def t_def P_def)
  have "\<bar>t\<bar> \<le> 500"
  proof (rule ccontr)
    assume "\<not> \<bar>t\<bar> \<le> 500"
    then have "501 \<le> \<bar>t\<bar>"
      by simp
    then have "501 * (P * D) \<le> \<bar>t\<bar> * (P * D)"
      using Ppos Dpos by (intro mult_right_mono) simp_all
    also have "\<dots> = \<bar>P * D * t\<bar>"
      using Ppos Dpos by (simp add: abs_mult)
    also have "\<dots> = \<bar>1000 * D * a + 1000000 * b\<bar>"
      by (simp only: ab(3))
    also have "\<dots> \<le> \<bar>1000 * D * a\<bar> + \<bar>1000000 * b\<bar>"
      by (rule abs_triangle_ineq)
    also have "\<bar>1000 * D * a\<bar> = 500 * D * \<bar>2 * a\<bar>"
      using Dpos by (simp add: abs_mult)
    also have "\<bar>1000000 * b\<bar> = 500000 * \<bar>2 * b\<bar>"
      by (simp add: abs_mult)
    also have "500 * D * \<bar>2 * a\<bar> + 500000 * \<bar>2 * b\<bar> \<le> 500 * D * P + 500000 * D"
      using ab(1,2) Dpos by (intro add_mono mult_left_mono) simp_all
    finally have "501 * (P * D) \<le> 500 * D * P + 500000 * D"
      by simp
    then have "P * D \<le> 500000 * D"
      by (simp add: algebra_simps)
    then have "P \<le> 500000"
      using Dpos by simp
    then show False
      using Ppos by simp
  qed
  then have t: "\<bar>1000 * n - us\<bar> \<le> 500"
    by (simp add: t_def)
  then have n999: "n \<le> 999"
    using us by linarith
  have "format_3f (Fin m' e')
      = dec_of_int (n div 1000) @ [Ch CHR ''.''] @ zero_pad 3 (dec_of_int (n mod 1000))"
    using e' m' sc by (simp add: n_def Let_def)
  then have "last4 (format_3f (round_frac N D)) = Ch CHR ''.'' # zero_pad 3 (dec_of_int n)"
    using last4_millis [OF n0 n999] by (simp add: rf)
  with n0 n999 t show ?thesis
    by blast
qed

lemma float_of_int_pos:
  assumes "0 < i" "i < 2 ^ 53"
  shows "float_of_int i = Inr (Fin (i * 2 ^ nat (53 - bitlen i)) (bitlen i - 53))"
  using assms round_pos_int_exact [OF assms] by (simp add: float_of_int_def round_frac_def)

lemma microsecond_quotient:
  assumes "0 < us" "us < 1000000"
  shows "\<exists>N D. 0 < N \<and> N < D \<and> N * 1000000 = us * D
    \<and> then_exc (float_of_int us) (\<lambda>u. ftruediv u f1000000) = Inr (round_frac N D)"
proof -
  define b where "b = bitlen us"
  have lt: "us < 2 ^ 53"
    using assms(2) by simp
  have b: "1 \<le> b" "b \<le> 53"
    using bitlen_le_53 [OF assms(1) lt] by (simp_all add: b_def)
  have f: "float_of_int us = Inr (Fin (us * 2 ^ nat (53 - b)) (b - 53))"
    unfolding b_def by (rule float_of_int_pos [OF assms(1) lt])
  define M where "M = (8589934592000000 :: int)"
  have M: "M = 1000000 * 2 ^ 33" "0 < M"
    by (simp_all add: M_def)
  show ?thesis
  proof (cases "20 \<le> b")
    case True
    define N where "N = us * 2 ^ nat (53 - b) * 2 ^ nat (b - 20)"
    have "nat (53 - b) + nat (b - 20) = 33"
      using True b by linarith
    then have "(2::int) ^ nat (53 - b) * 2 ^ nat (b - 20) = 2 ^ 33"
      by (simp only: power_add [symmetric])
    then have N: "N = us * 2 ^ 33"
      by (simp add: N_def mult.assoc)
    have "then_exc (float_of_int us) (\<lambda>u. ftruediv u f1000000) = Inr (round_frac N M)"
      using True by (simp add: f f1000000_def N_def M_def)
    moreover have "0 < N" "N < M" "N * 1000000 = us * M"
      using assms by (simp_all add: N M(1))
    ultimately show ?thesis
      by blast
  next
    case False
    define D where "D = M * 2 ^ nat (20 - b)"
    define N where "N = us * 2 ^ nat (53 - b)"
    have "33 + nat (20 - b) = nat (53 - b)"
      using False b by linarith
    then have "(2::int) ^ 33 * 2 ^ nat (20 - b) = 2 ^ nat (53 - b)"
      by (simp only: power_add [symmetric])
    then have D: "D = 1000000 * 2 ^ nat (53 - b)"
      by (simp add: D_def M(1) mult.assoc)
    have "then_exc (float_of_int us) (\<lambda>u. ftruediv u f1000000) = Inr (round_frac N D)"
      using False by (simp add: f f1000000_def N_def D_def M_def)
    moreover have "0 < N" "N < D" "N * 1000000 = us * D"
      using assms by (simp_all add: N_def D)
    ultimately show ?thesis
      by blast
  qed
qed

lemma strfTime_format_millis:
  assumes "0 \<le> dt_microsecond dt" "dt_microsecond dt < 999500"
  shows "\<exists>n. 0 \<le> n \<and> n \<le> 999 \<and> \<bar>1000 * n - dt_microsecond dt\<bar> \<le> 500
    \<and> strfTime_format rt dt fmt True = Inr (strftime rt dt fmt @ Ch CHR ''.'' # zero_pad 3 (dec_of_int n))"
proof (cases "dt_microsecond dt = 0")
  case True
  have "format_3f (Fin 0 0) = dec_of_int (0 div 1000) @ [Ch CHR ''.''] @ zero_pad 3 (dec_of_int (0 mod 1000))"
    by simp
  then have "last4 (format_3f (Fin 0 0)) = Ch CHR ''.'' # zero_pad 3 (dec_of_int 0)"
    using last4_millis [of 0] by simp
  then have "strfTime_format rt dt fmt True = Inr (strftime rt dt fmt @ Ch CHR ''.'' # zero_pad 3 (dec_of_int 0))"
    by (simp add: strfTime_format_def True float_of_int_def round_frac_def f1000000_def)
  then show ?thesis
    using True by (intro exI [of _ 0]) simp
next
  case False
  then have us: "0 < dt_microsecond dt" "dt_microsecond dt < 1000000"
    using assms by simp_all
  from microsecond_quotient [OF us] obtain N D where
    ND: "0 < N" "N < D" "N * 1000000 = dt_microsecond dt * D"
    and q: "then_exc (float_of_int (dt_microsecond dt)) (\<lambda>u. ftruediv u f1000000) = Inr (round_frac N D)"
    by blast
  from millis_suffix_pos [OF ND assms(2)] obtain n where
    n: "0 \<le> n" "n \<le> 999" "\<bar>1000 * n - dt_microsecond dt\<bar> \<le> 500"
    "last4 (format_3f (round_frac N D)) = Ch CHR ''.'' # zero_pad 3 (dec_of_int n)"
    by blast
  have "strfTime_format rt dt fmt True = Inr (strftime rt dt fmt @ last4 (format_3f (round_frac N D)))"
    using q by (cases "float_of_int (dt_microsecond dt)") (simp_all add: strfTime_format_def Let_def)
  with n show ?thesis
    by auto
qed

lemma rne_div_le:
  assumes "0 < d" "n \<le> i * d"
  shows "rne_div n d \<le> i"
proof -
  define k where "k = n div d"
  define r where "r = n mod d"
  have n: "n = k * d + r"
    by (simp add: k_def r_def)
  have r: "0 \<le> r" "r < d"
    using assms(1) by (simp_all add: r_def)
  have "k * d \<le> i * d"
    using assms(2) r(1) unfolding n by linarith
  then have ki: "k \<le> i"
    using assms(1) by (simp add: mult_le_cancel_right)
  show ?thesis
  proof (cases "k = i")
    case True
    then have "r = 0"
      using assms(2) r(1) unfolding n by simp
    then show ?thesis
      using assms(1) True by (simp add: rne_div_def Let_def k_def [symmetric] r_def [symmetric])
  next
    case False
    then have "k + 1 \<le> i"
      using ki by simp
    moreover have "rne_div n d \<le> k + 1"
      by (simp add: rne_div_def Let_def k_def)
    ultimately show ?thesis
      by linarith
  qed
qed

lemma ilog2_frac_lower:
  assumes "0 < N" "0 < D" "0 \<le> ilog2_frac N D"
  shows "D * 2 ^ nat (ilog2_frac N D) \<le> N"
proof -
  define k where "k = bitlen N - bitlen D"
  have il: "ilog2_frac N D =
      (if (if 0 \<le> k then D * 2 ^ nat k \<le> N else D \<le> N * 2 ^ nat (- k)) then k else k - 1)"
    by (simp add: ilog2_frac_def Let_def k_def)
  show ?thesis
  proof (cases "0 \<le> k \<and> D * 2 ^ nat k \<le> N")
    case True
    then show ?thesis by (simp add: il)
  next
    case False
    then have r: "ilog2_frac N D = k - 1" "1 \<le> k"
      using assms(3) by (auto simp: il split: if_splits)
    have bN: "2 ^ nat (bitlen N - 1) \<le> N"
      using bitlen_bounds [OF assms(1)] by simp
    have bD: "D < 2 ^ nat (bitlen D)"
      using bitlen_bounds [OF assms(2)] by simp
    have pos: "0 \<le> bitlen D"
      by (rule bitlen_nonneg)
    have "D * 2 ^ nat (k - 1) \<le> 2 ^ nat (bitlen D) * 2 ^ nat (k - 1)"
      using bD by (intro mult_right_mono) simp_all
    also have "\<dots> = 2 ^ (nat (bitlen D) + nat (k - 1))"
      by (simp add: power_add)
    also have "nat (bitlen D) + nat (k - 1) = nat (bitlen N - 1)"
      using r(2) pos by (simp add: k_def)
    finally show ?thesis
      using bN by (simp add: r(1))
  qed
qed

lemma round_pos_below_million:
  assumes "0 < N" "0 < D" "N < 1000000 * D"
  shows "\<exists>m' e'. round_pos N D = Some (m', e') \<and> e' < 0 \<and> 0 \<le> m'
    \<and> rne_div m' (2 ^ nat (- e')) \<le> 1000000"
proof -
  define e0 where "e0 = max (- 1074) (ilog2_frac N D - 52)"
  define E where "E = nat (- e0)"
  define m0 where "m0 = rne_div (N * 2 ^ E) D"
  have il: "ilog2_frac N D \<le> 19"
  proof (rule ccontr)
    assume "\<not> ilog2_frac N D \<le> 19"
    then have ge: "20 \<le> ilog2_frac N D"
      by simp
    then have low: "D * 2 ^ nat (ilog2_frac N D) \<le> N"
      by (intro ilog2_frac_lower assms) simp
    have "(2::int) ^ 20 \<le> 2 ^ nat (ilog2_frac N D)"
      using ge by (intro power_increasing) simp_all
    then have "D * 2 ^ 20 \<le> D * 2 ^ nat (ilog2_frac N D)"
      using assms(2) by (intro mult_left_mono) simp_all
    also note low
    finally have "D * 1048576 \<le> N"
      by simp
    then show False
      using assms(2,3) by linarith
  qed
  have e0: "- 1074 \<le> e0" "e0 \<le> - 33"
    using il by (simp_all add: e0_def)
  have m0: "0 \<le> m0"
    unfolding m0_def using assms by (intro rne_div_nonneg) simp_all
  have "N * 2 ^ E \<le> (1000000 * 2 ^ E) * D"
    using assms(3) by (simp add: mult.assoc mult.left_commute [of _ D])
  then have le: "m0 \<le> 1000000 * 2 ^ E"
    unfolding m0_def by (intro rne_div_le assms)
  have fin: "rne_div m0 (2 ^ E) \<le> 1000000"
    using le by (intro rne_div_le) simp_all
  have rp: "round_pos N D =
      (if 971 < (if m0 = 2 ^ 53 then e0 + 1 else e0) then None
       else Some (if m0 = 2 ^ 53 then 2 ^ 52 else m0, if m0 = 2 ^ 53 then e0 + 1 else e0))"
    using e0 by (simp add: round_pos_def Let_def e0_def [symmetric] m0_def E_def)
  show ?thesis
  proof (cases "m0 = 2 ^ 53")
    case False
    then show ?thesis
      using e0 m0 fin by (simp add: rp E_def)
  next
    case True
    have EE: "E = Suc (nat (- (e0 + 1)))"
      using e0 by (simp add: E_def)
    have "rne_div m0 (2 ^ E) = rne_div (2 * 2 ^ 52) (2 * 2 ^ nat (- (e0 + 1)))"
      by (simp add: True EE)
    also have "\<dots> = rne_div (2 ^ 52) (2 ^ nat (- (e0 + 1)))"
      by (rule rne_div_scale) simp
    finally show ?thesis
      using True e0 fin by (simp add: rp)
  qed
qed

lemma fraction_microseconds:
  assumes "e < 0" "\<bar>fm\<bar> < 2 ^ nat (- e)"
  shows "\<bar>float_rne (fmul (Fin fm e) f1000000)\<bar> \<le> 1000000"
proof (cases "fm = 0")
  case True
  then show ?thesis
    using assms(1) by (simp add: f1000000_def round_scaled_def round_frac_def)
next
  case False
  define N where "N = \<bar>fm\<bar> * 8589934592000000"
  define D where "D = (2 :: int) ^ nat (- (e - 33))"
  have D: "D = 2 ^ nat (- e) * 2 ^ 33" "0 < D"
  proof -
    have "nat (- (e - 33)) = nat (- e) + 33"
      using assms(1) by linarith
    then show "D = 2 ^ nat (- e) * 2 ^ 33"
      by (simp only: D_def power_add)
    show "0 < D"
      by (simp add: D_def)
  qed
  have N: "0 < N" "N < 1000000 * D"
    using False assms(2) by (simp_all add: N_def D(1))
  from round_pos_below_million [OF N(1) D(2) N(2)] obtain m' e' where
    r: "round_pos N D = Some (m', e')" "e' < 0" "0 \<le> m'" "rne_div m' (2 ^ nat (- e')) \<le> 1000000"
    by blast
  have "fmul (Fin fm e) f1000000 = Fin (sgn fm * m') e'"
    using assms(1) False r(1)
    by (simp add: f1000000_def round_scaled_def round_frac_def N_def D_def abs_mult sgn_mult)
  moreover have "\<bar>sgn (sgn fm * m') * rne_div \<bar>sgn fm * m'\<bar> (2 ^ nat (- e'))\<bar> \<le> 1000000"
  proof -
    have "\<bar>sgn fm * m'\<bar> = m'"
      using False r(3) by (simp add: abs_mult)
    moreover have "0 \<le> rne_div m' (2 ^ nat (- e'))"
      using r(3) by (intro rne_div_nonneg) simp_all
    ultimately show ?thesis
      using r(4) by (simp add: abs_mult sgn_if)
  qed
  ultimately show ?thesis
    using r(2) by simp
qed

lemma timestamp_split_microsecond:
  assumes "timestamp_split v = Inr (sec, us)"
  shows "0 \<le> us \<and> us < 1000000"
proof (cases v)
  case (PyFloat x)
  show ?thesis
  proof (cases x)
    case (Fin m e)
    show ?thesis
    proof (cases "0 \<le> e")
      case True
      have "fmul (Fin 0 0) f1000000 = Fin 0 0"
        by (simp add: f1000000_def round_scaled_def round_frac_def)
      then show ?thesis
        using assms True unfolding PyFloat Fin
        by (auto simp: timestamp_split_def Let_def split: if_splits)
    next
      case False
      define fm where "fm = sgn m * (\<bar>m\<bar> mod 2 ^ nat (- e))"
      define us0 where "us0 = float_rne (fmul (Fin fm e) f1000000)"
      have "\<bar>fm\<bar> = \<bar>m\<bar> mod 2 ^ nat (- e) \<or> fm = 0"
        by (simp add: fm_def abs_mult sgn_if)
      moreover have "\<bar>m\<bar> mod 2 ^ nat (- e) < 2 ^ nat (- e)"
        by simp
      ultimately have "\<bar>fm\<bar> < 2 ^ nat (- e)"
        by auto
      then have "\<bar>us0\<bar> \<le> 1000000"
        unfolding us0_def using False by (intro fraction_microseconds) simp_all
      moreover have "us = (if 1000000 \<le> us0 then us0 - 1000000 else if us0 < 0 then us0 + 1000000 else us0)"
        using assms False unfolding PyFloat Fin
        by (auto simp: timestamp_split_def Let_def fm_def us0_def split: if_splits)
      ultimately show ?thesis
        by (auto split: if_splits)
    qed
  qed (use assms PyFloat in \<open>simp_all add: timestamp_split_def\<close>)
qed (use assms in \<open>auto simp: timestamp_split_def split: if_splits\<close>)

lemma fromtimestamp_microsecond:
  assumes "fromtimestamp rt t = Inr dt"
  shows "0 \<le> dt_microsecond dt \<and> dt_microsecond dt < 1000000"
proof -
  obtain sec us where s: "timestamp_split t = Inr (sec, us)"
    using assms by (cases "timestamp_split t") (auto simp: fromtimestamp_def)
  have "dt = civil_of_seconds (sec + utcoffset rt sec) us"
    using assms by (simp add: fromtimestamp_def s Let_def split: if_splits)
  then have "dt_microsecond dt = us"
    by (simp add: civil_of_seconds_def Let_def split: prod.split)
  then show ?thesis
    using timestamp_split_microsecond [OF s] by simp
qed

section \<open>The milliseconds that \<^verbatim>\<open>strfTime\<close> appends\<close>

lemmas civil_eval =
  civil_of_seconds_def ord_to_ymd_def epoch_ord_def days_before_month_def
  days_before_month_tab_def days_in_month_def is_leap_def

lemma replicate_numeral: "replicate (numeral k) x = x # replicate (pred_numeral k) x"
  by (simp add: numeral_eq_Suc)

lemmas strftime_eval =
  strftime_directive_def zero_pad_def dec_of_int_def dec_of_nat.simps digit_char_def iso_format_def
  latin_def replicate_numeral

lemma strfTime_float:
  assumes "fromtimestamp rt (PyFloat x) = Inr dt"
  shows "strfTime rt (PyFloat x) fmt millis = strfTime_format rt dt fmt millis"
proof -
  have "strfTime_format rt dt fmt millis \<noteq> Inl OSError"
    by (cases "float_of_int (dt_microsecond dt)";
        cases "ftruediv (projr (float_of_int (dt_microsecond dt))) f1000000")
       (auto simp: strfTime_format_def Let_def float_of_int_def f1000000_def
          split: pyfloat.splits if_splits)
  then show ?thesis
    using assms
    by (cases "strfTime_format rt dt fmt millis") (auto simp: strfTime_def strfTime_body_def split: pyexc.splits)
qed

lemma strfTime_format_not_OSError: "strfTime_format rt dt fmt millis \<noteq> Inl OSError"
  by (cases "float_of_int (dt_microsecond dt)";
      cases "ftruediv (projr (float_of_int (dt_microsecond dt))) f1000000")
     (auto simp: strfTime_format_def Let_def float_of_int_def f1000000_def
        split: pyfloat.splits if_splits)

lemma strfTime_int:
  assumes "isinstance_int t" "millisToSecs (int_value t) fzero = Inr secs"
    "fromtimestamp rt (PyFloat secs) = Inr dt"
  shows "strfTime rt t fmt millis = strfTime_format rt dt fmt millis"
proof -
  have "\<not> isinstance_float t"
    using assms(1) by (cases t) simp_all
  then show ?thesis
    using assms strfTime_format_not_OSError [of rt dt fmt millis]
    by (cases "strfTime_format rt dt fmt millis") (auto simp: strfTime_def strfTime_body_def split: pyexc.splits)
qed

lemma strfTime_format_plain: "strfTime_format rt dt fmt False = Inr (strftime rt dt fmt)"
  by (simp add: strfTime_format_def)

text \<open>
  C4, as the code has it. For every float or integer that \<^verbatim>\<open>strfTime\<close> converts to
  a date and time \<open>dt\<close> with less than 999500 microseconds, the text with
  \<^verbatim>\<open>millis=True\<close> is the text with \<^verbatim>\<open>millis=False\<close> followed by a point and the
  three digits of the milliseconds \<open>n\<close> nearest to the microseconds of \<open>dt\<close>: the
  last four characters of \<^verbatim>\<open>microsecond/1000000.0\<close> formatted with \<^verbatim>\<open>.3f\<close>, which
  rounds and does not truncate.
\<close>

theorem strfTime_millis_rounded:
  "(fromtimestamp rt (PyFloat x) = Inr dt \<and> dt_microsecond dt < 999500
    \<longrightarrow> (\<exists>n. 0 \<le> n \<and> n \<le> 999 \<and> \<bar>1000 * n - dt_microsecond dt\<bar> \<le> 500
          \<and> strfTime rt (PyFloat x) fmt False = Inr (strftime rt dt fmt)
          \<and> strfTime rt (PyFloat x) fmt True = Inr (strftime rt dt fmt @ Ch CHR ''.'' # zero_pad 3 (dec_of_int n))))
   \<and> (isinstance_int t \<and> millisToSecs (int_value t) fzero = Inr secs
      \<and> fromtimestamp rt (PyFloat secs) = Inr dt' \<and> dt_microsecond dt' < 999500
    \<longrightarrow> (\<exists>n. 0 \<le> n \<and> n \<le> 999 \<and> \<bar>1000 * n - dt_microsecond dt'\<bar> \<le> 500
          \<and> strfTime rt t fmt False = Inr (strftime rt dt' fmt)
          \<and> strfTime rt t fmt True = Inr (strftime rt dt' fmt @ Ch CHR ''.'' # zero_pad 3 (dec_of_int n))))"
proof (intro conjI impI)
  assume h: "fromtimestamp rt (PyFloat x) = Inr dt \<and> dt_microsecond dt < 999500"
  then have "0 \<le> dt_microsecond dt"
    using fromtimestamp_microsecond [of rt "PyFloat x" dt] by simp
  from strfTime_format_millis [OF this, where rt = rt and fmt = fmt] h obtain n where
    "0 \<le> n" "n \<le> 999" "\<bar>1000 * n - dt_microsecond dt\<bar> \<le> 500"
    "strfTime_format rt dt fmt True = Inr (strftime rt dt fmt @ Ch CHR ''.'' # zero_pad 3 (dec_of_int n))"
    by blast
  then show "\<exists>n. 0 \<le> n \<and> n \<le> 999 \<and> \<bar>1000 * n - dt_microsecond dt\<bar> \<le> 500
      \<and> strfTime rt (PyFloat x) fmt False = Inr (strftime rt dt fmt)
      \<and> strfTime rt (PyFloat x) fmt True = Inr (strftime rt dt fmt @ Ch CHR ''.'' # zero_pad 3 (dec_of_int n))"
    using h by (intro exI [of _ n]) (simp add: strfTime_float strfTime_format_plain)
next
  assume h: "isinstance_int t \<and> millisToSecs (int_value t) fzero = Inr secs
      \<and> fromtimestamp rt (PyFloat secs) = Inr dt' \<and> dt_microsecond dt' < 999500"
  then have "0 \<le> dt_microsecond dt'"
    using fromtimestamp_microsecond [of rt "PyFloat secs" dt'] by simp
  from strfTime_format_millis [OF this, where rt = rt and fmt = fmt] h obtain n where
    "0 \<le> n" "n \<le> 999" "\<bar>1000 * n - dt_microsecond dt'\<bar> \<le> 500"
    "strfTime_format rt dt' fmt True = Inr (strftime rt dt' fmt @ Ch CHR ''.'' # zero_pad 3 (dec_of_int n))"
    by blast
  then show "\<exists>n. 0 \<le> n \<and> n \<le> 999 \<and> \<bar>1000 * n - dt_microsecond dt'\<bar> \<le> 500
      \<and> strfTime rt t fmt False = Inr (strftime rt dt' fmt)
      \<and> strfTime rt t fmt True = Inr (strftime rt dt' fmt @ Ch CHR ''.'' # zero_pad 3 (dec_of_int n))"
    using h by (intro exI [of _ n]) (simp add: strfTime_int [of t secs rt dt'] strfTime_format_plain)
qed

text \<open>The instances: 1500 microseconds give \<^verbatim>\<open>.002\<close>, and the milliseconds 1700000000123 give \<^verbatim>\<open>.123\<close>.\<close>

lemma split_15: "timestamp_split (PyFloat (float_of_decimal 15 4)) = Inr (0, 1500)"
  by (simp add: timestamp_split_def float_eval)

lemma civil_epoch: "dt_year (civil_of_seconds 0 us) = 1970"
  by (simp add: civil_eval Let_def)

lemma from_15:
  "fromtimestamp example_runtime (PyFloat (float_of_decimal 15 4))
    = Inr \<lparr>dt_year = 1969, dt_month = 12, dt_day = 31, dt_hour = 19, dt_minute = 0,
        dt_second = 0, dt_microsecond = 1500\<rparr>"
  by (simp add: fromtimestamp_def split_15 civil_epoch example_runtime_def) (simp add: civil_eval Let_def)

lemma strftime_15:
  "strftime example_runtime \<lparr>dt_year = 1969, dt_month = 12, dt_day = 31, dt_hour = 19, dt_minute = 0,
        dt_second = 0, dt_microsecond = 1500\<rparr> iso_format = latin ''1969-12-31T19:00:00''"
  by (simp add: strftime_eval example_runtime_def)

lemma quotient_1500: "then_exc (float_of_int 1500) (\<lambda>u. ftruediv u f1000000) = Inr (Fin 6917529027641082 (- 62))"
  by (simp add: float_eval)

lemma format_1500: "last4 (format_3f (Fin 6917529027641082 (- 62))) = latin ''.002''"
  by (simp add: rne_div_def Let_def last4_def strftime_eval)

lemma strfTime_format_True:
  assumes "then_exc (float_of_int (dt_microsecond dt)) (\<lambda>u. ftruediv u f1000000) = Inr x"
  shows "strfTime_format rt dt fmt True = Inr (strftime rt dt fmt @ last4 (format_3f x))"
  using assms by (cases "float_of_int (dt_microsecond dt)") (simp_all add: strfTime_format_def Let_def)

lemma strfTime_float_millis:
  assumes "fromtimestamp rt (PyFloat x) = Inr dt"
    and "then_exc (float_of_int (dt_microsecond dt)) (\<lambda>u. ftruediv u f1000000) = Inr q"
    and "strftime rt dt fmt = s" and "last4 (format_3f q) = sfx"
  shows "strfTime rt (PyFloat x) fmt True = Inr (s @ sfx)"
  by (simp only: strfTime_float [OF assms(1)] strfTime_format_True [OF assms(2)] assms(3,4))

lemma strfTime_int_millis:
  assumes "isinstance_int t" and "millisToSecs (int_value t) fzero = Inr secs"
    and "fromtimestamp rt (PyFloat secs) = Inr dt"
    and "then_exc (float_of_int (dt_microsecond dt)) (\<lambda>u. ftruediv u f1000000) = Inr q"
    and "strftime rt dt fmt = s" and "last4 (format_3f q) = sfx"
  shows "strfTime rt t fmt True = Inr (s @ sfx)"
  by (simp only: strfTime_int [OF assms(1,2,3)] strfTime_format_True [OF assms(4)] assms(5,6))

lemma strfTime_15:
  "strfTime example_runtime (PyFloat (float_of_decimal 15 4)) iso_format False = Inr (latin ''1969-12-31T19:00:00'')"
  "strfTime example_runtime (PyFloat (float_of_decimal 15 4)) iso_format True = Inr (latin ''1969-12-31T19:00:00.002'')"
proof -
  show "strfTime example_runtime (PyFloat (float_of_decimal 15 4)) iso_format False = Inr (latin ''1969-12-31T19:00:00'')"
    by (simp only: strfTime_float [OF from_15] strfTime_format_plain strftime_15)
  have "strfTime example_runtime (PyFloat (float_of_decimal 15 4)) iso_format True
      = Inr (latin ''1969-12-31T19:00:00'' @ latin ''.002'')"
    by (rule strfTime_float_millis [OF from_15 _ strftime_15 format_1500]) (simp add: quotient_1500)
  then show "strfTime example_runtime (PyFloat (float_of_decimal 15 4)) iso_format True = Inr (latin ''1969-12-31T19:00:00.002'')"
    by (simp add: latin_def)
qed

lemma split_9995: "timestamp_split (PyFloat (float_of_decimal 9995 4)) = Inr (0, 999500)"
  by (simp add: timestamp_split_def float_eval)

lemma from_9995:
  "fromtimestamp example_runtime (PyFloat (float_of_decimal 9995 4))
    = Inr \<lparr>dt_year = 1969, dt_month = 12, dt_day = 31, dt_hour = 19, dt_minute = 0,
        dt_second = 0, dt_microsecond = 999500\<rparr>"
  by (simp add: fromtimestamp_def split_9995 civil_epoch example_runtime_def) (simp add: civil_eval Let_def)

lemma strftime_9995:
  "strftime example_runtime \<lparr>dt_year = 1969, dt_month = 12, dt_day = 31, dt_hour = 19, dt_minute = 0,
        dt_second = 0, dt_microsecond = 999500\<rparr> iso_format = latin ''1969-12-31T19:00:00''"
  by (simp add: strftime_eval example_runtime_def)

lemma quotient_999500:
  "then_exc (float_of_int 999500) (\<lambda>u. ftruediv u f1000000) = Inr (Fin 9002695655113622 (- 53))"
  by (simp add: float_eval)

lemma format_999500: "last4 (format_3f (Fin 9002695655113622 (- 53))) = latin ''.000''"
  by (simp add: rne_div_def Let_def last4_def strftime_eval)

lemma strfTime_9995:
  "strfTime example_runtime (PyFloat (float_of_decimal 9995 4)) iso_format True = Inr (latin ''1969-12-31T19:00:00.000'')"
proof -
  have "strfTime example_runtime (PyFloat (float_of_decimal 9995 4)) iso_format True
      = Inr (latin ''1969-12-31T19:00:00'' @ latin ''.000'')"
    by (rule strfTime_float_millis [OF from_9995 _ strftime_9995 format_999500]) (simp add: quotient_999500)
  then show ?thesis
    by (simp add: latin_def)
qed

lemma millis_truncated_examples: "millis_truncated 1500 = latin ''001''" "millis_truncated 999500 = latin ''999''"
  by (simp_all add: millis_truncated_def strftime_eval)

lemma millis_1700000000123: "millisToSecs 1700000000123 fzero = Inr (Fin 7130316800515899 (- 22))"
  by (simp add: millisToSecs_def float_eval)

lemma split_1700000000123:
  "timestamp_split (PyFloat (Fin 7130316800515899 (- 22))) = Inr (1700000000, 123000)"
  by (simp add: timestamp_split_def float_eval)

lemma civil_1700000000: "dt_year (civil_of_seconds 1700000000 us) = 2023"
  by (simp add: civil_eval Let_def)

lemma from_1700000000123:
  "fromtimestamp example_runtime (PyFloat (Fin 7130316800515899 (- 22)))
    = Inr \<lparr>dt_year = 2023, dt_month = 11, dt_day = 14, dt_hour = 17, dt_minute = 13,
        dt_second = 20, dt_microsecond = 123000\<rparr>"
  by (simp add: fromtimestamp_def split_1700000000123 civil_1700000000 example_runtime_def)
     (simp add: civil_eval Let_def)

lemma strftime_2023:
  "strftime example_runtime \<lparr>dt_year = 2023, dt_month = 11, dt_day = 14, dt_hour = 17, dt_minute = 13,
        dt_second = 20, dt_microsecond = us\<rparr> iso_format = latin ''2023-11-14T17:13:20''"
  by (simp add: strftime_eval example_runtime_def)

lemma quotient_123000:
  "then_exc (float_of_int 123000) (\<lambda>u. ftruediv u f1000000) = Inr (Fin 8863084066665136 (- 56))"
  by (simp add: float_eval)

lemma format_123000: "last4 (format_3f (Fin 8863084066665136 (- 56))) = latin ''.123''"
  by (simp add: rne_div_def Let_def last4_def strftime_eval)

lemma strfTime_1700000000123:
  "strfTime example_runtime (PyInt 1700000000123) iso_format True = Inr (latin ''2023-11-14T17:13:20.123'')"
proof -
  have "strfTime example_runtime (PyInt 1700000000123) iso_format True
      = Inr (latin ''2023-11-14T17:13:20'' @ latin ''.123'')"
    by (rule strfTime_int_millis [OF _ _ from_1700000000123 _ strftime_2023 format_123000])
       (simp_all add: millis_1700000000123 quotient_123000)
  then show ?thesis
    by (simp add: latin_def)
qed

theorem strfTime_millis_rounded_witness:
  "fromtimestamp example_runtime (PyFloat (float_of_decimal 15 4))
     = Inr \<lparr>dt_year = 1969, dt_month = 12, dt_day = 31, dt_hour = 19, dt_minute = 0,
        dt_second = 0, dt_microsecond = 1500\<rparr>
   \<and> (1500 :: int) < 999500
   \<and> strfTime example_runtime (PyFloat (float_of_decimal 15 4)) iso_format True = Inr (latin ''1969-12-31T19:00:00.002'')
   \<and> isinstance_int (PyInt 1700000000123)
   \<and> millisToSecs (int_value (PyInt 1700000000123)) fzero = Inr (Fin 7130316800515899 (- 22))
   \<and> fromtimestamp example_runtime (PyFloat (Fin 7130316800515899 (- 22)))
     = Inr \<lparr>dt_year = 2023, dt_month = 11, dt_day = 14, dt_hour = 17, dt_minute = 13,
        dt_second = 20, dt_microsecond = 123000\<rparr>
   \<and> (123000 :: int) < 999500
   \<and> strfTime example_runtime (PyInt 1700000000123) iso_format True = Inr (latin ''2023-11-14T17:13:20.123'')"
  using strfTime_millis_rounded [of example_runtime "float_of_decimal 15 4"
      "\<lparr>dt_year = 1969, dt_month = 12, dt_day = 31, dt_hour = 19, dt_minute = 0,
        dt_second = 0, dt_microsecond = 1500\<rparr>" iso_format
      "PyInt 1700000000123" "Fin 7130316800515899 (- 22)"
      "\<lparr>dt_year = 2023, dt_month = 11, dt_day = 14, dt_hour = 17, dt_minute = 13,
        dt_second = 20, dt_microsecond = 123000\<rparr>"]
    from_15 strfTime_15(2) millis_1700000000123 from_1700000000123 strfTime_1700000000123
  by simp

text \<open>
  The claim as the specification words it fails: for 1500 microseconds the first
  three of the six digits are \<^verbatim>\<open>001\<close> and the text ends in \<^verbatim>\<open>.002\<close>; for 999500
  microseconds they are \<^verbatim>\<open>999\<close> and the text ends in \<^verbatim>\<open>.000\<close>, of
  \<^verbatim>\<open>1.000\<close>.
\<close>

theorem strfTime_millis_counterexample:
  "map_sum id dt_microsecond (fromtimestamp example_runtime (PyFloat (float_of_decimal 15 4))) = Inr 1500
   \<and> millis_truncated 1500 = latin ''001''
   \<and> strfTime example_runtime (PyFloat (float_of_decimal 15 4)) iso_format False = Inr (latin ''1969-12-31T19:00:00'')
   \<and> strfTime example_runtime (PyFloat (float_of_decimal 15 4)) iso_format True = Inr (latin ''1969-12-31T19:00:00.002'')
   \<and> map_sum id dt_microsecond (fromtimestamp example_runtime (PyFloat (float_of_decimal 9995 4))) = Inr 999500
   \<and> millis_truncated 999500 = latin ''999''
   \<and> strfTime example_runtime (PyFloat (float_of_decimal 9995 4)) iso_format True = Inr (latin ''1969-12-31T19:00:00.000'')"
  by (simp add: from_15 from_9995 strfTime_15 strfTime_9995 millis_truncated_examples)


section \<open>Dates from ordinals and back\<close>

lemma month_of_day:
  fixes n :: int
  assumes "0 \<le> n" "n \<le> 364"
  defines "mo \<equiv> (n + 50) div 32"
  shows "if n < days_before_month y mo
         then 1 \<le> mo - 1 \<and> mo - 1 \<le> 12
           \<and> days_before_month y mo - days_in_month y (mo - 1) = days_before_month y (mo - 1)
           \<and> days_before_month y (mo - 1) \<le> n
           \<and> n - days_before_month y (mo - 1) + 1 \<le> days_in_month y (mo - 1)
         else 1 \<le> mo \<and> mo \<le> 12 \<and> n - days_before_month y mo + 1 \<le> days_in_month y mo"
proof -
  have r: "32 * mo \<le> n + 50" "n + 50 < 32 * mo + 32"
    unfolding mo_def by linarith+
  then have "1 \<le> mo" "mo \<le> 12"
    using assms(1,2) by linarith+
  then have "mo \<in> {1, 2, 3, 4, 5, 6, 7, 8, 9, 10, 11, 12}"
    by (simp add: insert_iff) presburger
  then show ?thesis
    using r assms(1,2)
    by (elim insertE emptyE; cases "is_leap y";
        simp add: days_before_month_def days_before_month_tab_def days_in_month_def)
qed

lemma div_decomp:
  fixes q r k :: int
  assumes "0 \<le> r" "r < k"
  shows "(k * q + r) div k = q" "(k * q + r) mod k = r"
  using assms by (simp_all add: div_pos_pos_trivial)

lemma mod_top:
  fixes r k :: int
  assumes "0 < r" "r \<le> k"
  shows "((k * q + r) mod k = 0) = (r = k)"
proof (cases "r = k")
  case True
  then show ?thesis by simp
next
  case False
  then have "(k * q + r) mod k = r"
    using assms by (intro div_decomp) simp_all
  then show ?thesis
    using assms False by simp
qed

lemma days_before_year_cycles:
  fixes a b c e :: int
  assumes "0 \<le> b" "b \<le> 3" "0 \<le> c" "c \<le> 24" "0 \<le> e" "e \<le> 3"
  shows "days_before_year (400 * a + 100 * b + 4 * c + e + 1) = 146097 * a + 36524 * b + 1461 * c + 365 * e"
proof -
  define z where "z = 400 * a + 100 * b + 4 * c + e"
  have "z = 4 * (100 * a + 25 * b + c) + e"
    by (simp add: z_def)
  then have d4: "z div 4 = 100 * a + 25 * b + c"
    using assms div_decomp(1) [of e 4 "100 * a + 25 * b + c"] by simp
  have "z = 100 * (4 * a + b) + (4 * c + e)"
    by (simp add: z_def)
  then have d100: "z div 100 = 4 * a + b"
    using assms div_decomp(1) [of "4 * c + e" 100 "4 * a + b"] by simp
  have "z = 400 * a + (100 * b + 4 * c + e)"
    by (simp add: z_def)
  then have d400: "z div 400 = a"
    using assms div_decomp(1) [of "100 * b + 4 * c + e" 400 a] by simp
  have "days_before_year (z + 1) = z * 365 + z div 4 - z div 100 + z div 400"
    by (simp add: days_before_year_def Let_def)
  also have "\<dots> = 146097 * a + 36524 * b + 1461 * c + 365 * e"
    unfolding d4 d100 d400 by (simp add: z_def)
  finally show ?thesis
    by (simp add: z_def)
qed

lemma is_leap_cycles:
  fixes a b c e :: int
  assumes "0 \<le> b" "b \<le> 3" "0 \<le> c" "c \<le> 24" "0 \<le> e" "e \<le> 3"
  shows "is_leap (400 * a + 100 * b + 4 * c + e + 1) = (e = 3 \<and> (c \<noteq> 24 \<or> b = 3))"
proof -
  define y where "y = 400 * a + 100 * b + 4 * c + e + 1"
  have "y = 4 * (100 * a + 25 * b + c) + (e + 1)"
    by (simp add: y_def)
  then have m4: "(y mod 4 = 0) = (e + 1 = 4)"
    using assms mod_top [of "e + 1" 4 "100 * a + 25 * b + c"] by simp
  have "y = 100 * (4 * a + b) + (4 * c + e + 1)"
    by (simp add: y_def)
  then have m100: "(y mod 100 = 0) = (4 * c + e + 1 = 100)"
    using assms mod_top [of "4 * c + e + 1" 100 "4 * a + b"] by simp
  have "y = 400 * a + (100 * b + 4 * c + e + 1)"
    by (simp add: y_def)
  then have m400: "(y mod 400 = 0) = (100 * b + 4 * c + e + 1 = 400)"
    using assms mod_top [of "100 * b + 4 * c + e + 1" 400 a] by simp
  have "is_leap y = (e = 3 \<and> (c \<noteq> 24 \<or> b = 3))"
    unfolding is_leap_def m4 m100 m400 using assms by auto
  then show ?thesis
    by (simp add: y_def)
qed

lemma ord_to_ymd_correct:
  assumes "ord_to_ymd n = (y, m, d)"
  shows "1 \<le> m \<and> m \<le> 12 \<and> 1 \<le> d \<and> d \<le> days_in_month y m \<and> ymd_to_ord y m d = n"
proof -
  define n0 where "n0 = n - 1"
  define a where "a = n0 div 146097"
  define na where "na = n0 mod 146097"
  define b where "b = na div 36524"
  define nb where "nb = na mod 36524"
  define c where "c = nb div 1461"
  define nc where "nc = nb mod 1461"
  define e where "e = nc div 365"
  define nd where "nd = nc mod 365"
  define year where "year = a * 400 + 1 + b * 100 + c * 4 + e"
  have n0: "n0 = 146097 * a + na" "0 \<le> na" "na < 146097"
    by (simp_all add: a_def na_def)
  have na: "na = 36524 * b + nb" "0 \<le> nb" "nb < 36524"
    by (simp_all add: b_def nb_def)
  have nb: "nb = 1461 * c + nc" "0 \<le> nc" "nc < 1461"
    by (simp_all add: c_def nc_def)
  have nc: "nc = 365 * e + nd" "0 \<le> nd" "nd < 365"
    by (simp_all add: e_def nd_def)
  have b: "0 \<le> b" "b \<le> 4"
    using n0(2,3) na by linarith+
  have c: "0 \<le> c" "c \<le> 24"
    using na(2,3) nb by linarith+
  have e: "0 \<le> e" "e \<le> 4"
    using nb(2,3) nc by linarith+
  have yr: "year = 400 * a + 100 * b + 4 * c + e + 1"
    by (simp add: year_def)
  have unfold: "ord_to_ymd n =
      (if e = 4 \<or> b = 4 then (year - 1, 12, 31)
       else if nd < days_before_month year ((nd + 50) div 32)
       then (year, (nd + 50) div 32 - 1,
             nd - (days_before_month year ((nd + 50) div 32)
                   - days_in_month year ((nd + 50) div 32 - 1)) + 1)
       else (year, (nd + 50) div 32, nd - days_before_month year ((nd + 50) div 32) + 1))"
    by (simp add: ord_to_ymd_def Let_def n0_def [symmetric] a_def [symmetric] na_def [symmetric]
        b_def [symmetric] nb_def [symmetric] c_def [symmetric] nc_def [symmetric]
        e_def [symmetric] nd_def [symmetric] year_def [symmetric])
  show ?thesis
  proof (cases "b = 4")
    case True
    then have z: "nb = 0" "c = 0" "nc = 0" "e = 0" "nd = 0"
      using n0(3) na nb nc c(1) e(1) by linarith+
    have res: "y = year - 1" "m = 12" "d = 31"
      using assms True by (simp_all add: unfold)
    have y': "y = 400 * a + 100 * 3 + 4 * 24 + 3 + 1"
      using True z by (simp add: res(1) yr)
    have dby: "days_before_year y = 146097 * a + 36524 * 3 + 1461 * 24 + 365 * 3"
      unfolding y' by (rule days_before_year_cycles) simp_all
    have leap: "is_leap y"
      unfolding y' by (subst is_leap_cycles) simp_all
    have "n = 146097 * a + 146097"
      using n0(1) na(1) True z by (simp add: n0_def)
    then show ?thesis
      using dby leap
      by (simp add: res(2,3) ymd_to_ord_def days_before_month_def days_before_month_tab_def days_in_month_def)
  next
    case b3: False
    then have b3': "b \<le> 3"
      using b by simp
    show ?thesis
    proof (cases "e = 4")
      case True
      then have z: "nd = 0"
        using nb(3) nc by linarith
      have c23: "c \<le> 23"
        using na(3) nb(1) nc(1) True z by linarith
      have res: "y = year - 1" "m = 12" "d = 31"
        using assms True by (simp_all add: unfold)
      have y': "y = 400 * a + 100 * b + 4 * c + 3 + 1"
        using True by (simp add: res(1) yr)
      have dby: "days_before_year y = 146097 * a + 36524 * b + 1461 * c + 365 * 3"
        unfolding y' using b(1) b3' c(1) c23 by (intro days_before_year_cycles) simp_all
      have leap: "is_leap y"
        unfolding y' using b(1) b3' c(1) c23 by (subst is_leap_cycles) simp_all
      have "n = 146097 * a + 36524 * b + 1461 * c + 1461"
        using n0(1) na(1) nb(1) nc(1) True z by (simp add: n0_def)
      then show ?thesis
        using dby leap
        by (simp add: res(2,3) ymd_to_ord_def days_before_month_def days_before_month_tab_def days_in_month_def)
    next
      case False
      then have e3: "e \<le> 3"
        using e by simp
      have dby: "days_before_year year = 146097 * a + 36524 * b + 1461 * c + 365 * e"
        unfolding yr using b(1) b3' c e(1) e3 by (intro days_before_year_cycles) simp_all
      have n: "n = days_before_year year + nd + 1"
        using n0(1) na(1) nb(1) nc(1) by (simp add: dby n0_def)
      have nd: "0 \<le> nd" "nd \<le> 364"
        using nc by simp_all
      define mo where "mo = (nd + 50) div 32"
      note md = month_of_day [OF nd, of year, folded mo_def]
      show ?thesis
      proof (cases "nd < days_before_month year mo")
        case True
        then have "ord_to_ymd n
            = (year, mo - 1, nd - (days_before_month year mo - days_in_month year (mo - 1)) + 1)"
          using b3 False by (simp add: unfold mo_def)
        then have res: "y = year" "m = mo - 1"
          "d = nd - (days_before_month year mo - days_in_month year (mo - 1)) + 1"
          using assms by simp_all
        from md True have p: "1 \<le> mo - 1" "mo - 1 \<le> 12"
          "days_before_month year mo - days_in_month year (mo - 1) = days_before_month year (mo - 1)"
          "days_before_month year (mo - 1) \<le> nd"
          "nd - days_before_month year (mo - 1) + 1 \<le> days_in_month year (mo - 1)"
          by simp_all
        show ?thesis
          using p n by (simp add: res ymd_to_ord_def)
      next
        case ge: False
        then have "ord_to_ymd n = (year, mo, nd - days_before_month year mo + 1)"
          using b3 False by (simp add: unfold mo_def)
        then have res: "y = year" "m = mo" "d = nd - days_before_month year mo + 1"
          using assms by simp_all
        from md ge have p: "1 \<le> mo" "mo \<le> 12" "nd - days_before_month year mo + 1 \<le> days_in_month year mo"
          by simp_all
        show ?thesis
          using p ge n by (simp add: res ymd_to_ord_def)
      qed
    qed
  qed
qed

section \<open>Decimal fields and the text of a date\<close>

lemma digit_char_props:
  "is_ascii_digit (digit_char n)" "digit_val (digit_char n) = int (n mod 10)"
proof -
  have "n mod 10 < 10"
    by simp
  then have "n mod 10 \<in> {0, 1, 2, 3, 4, 5, 6, 7, 8, 9}"
    by (simp add: insert_iff) presburger
  then show "is_ascii_digit (digit_char n)" "digit_val (digit_char n) = int (n mod 10)"
    by (auto simp: digit_char_def latin_def)
qed

lemma dec_of_nat_digits:
  "list_all is_ascii_digit (dec_of_nat n) \<and> int_of_digits (dec_of_nat n) = int n \<and> dec_of_nat n \<noteq> []"
proof (induction n rule: dec_of_nat.induct)
  case (1 n)
  show ?case
  proof (cases "n < 10")
    case True
    then show ?thesis
      using digit_char_props [of n]
      by (simp add: dec_of_nat.simps [of n] int_of_digits_def)
  next
    case False
    with 1 have ih: "list_all is_ascii_digit (dec_of_nat (n div 10))"
      "int_of_digits (dec_of_nat (n div 10)) = int (n div 10)"
      by simp_all
    have "int_of_digits (dec_of_nat n) = 10 * int (n div 10) + int (n mod 10)"
      using False ih(2) digit_char_props(2) [of n]
      by (simp add: dec_of_nat.simps [of n] int_of_digits_snoc)
    also have "\<dots> = int n"
      by presburger
    finally show ?thesis
      using False ih(1) digit_char_props(1) [of n] by (simp add: dec_of_nat.simps [of n])
  qed
qed

lemma dec_of_nat_width: "n < 10 ^ w \<Longrightarrow> 0 < w \<Longrightarrow> length (dec_of_nat n) \<le> w"
proof (induction w arbitrary: n)
  case 0
  then show ?case by simp
next
  case (Suc w)
  show ?case
  proof (cases "n < 10")
    case True
    then show ?thesis by (simp add: dec_of_nat.simps [of n])
  next
    case False
    then have "0 < w"
      using Suc.prems(1) by (cases w) simp_all
    moreover have "n div 10 < 10 ^ w"
      using Suc.prems(1) by (simp add: less_mult_imp_div_less mult.commute)
    ultimately have "length (dec_of_nat (n div 10)) \<le> w"
      by (intro Suc.IH)
    then show ?thesis
      using False by (simp add: dec_of_nat.simps [of n])
  qed
qed

lemma dec_of_nat_least_width: "10 ^ w \<le> n \<Longrightarrow> w < length (dec_of_nat n)"
proof (induction w arbitrary: n)
  case 0
  then show ?case
    using dec_of_nat_digits [of n] by (cases "dec_of_nat n") simp_all
next
  case (Suc w)
  have n: "(10 :: nat) ^ w * 10 \<le> n"
    using Suc.prems by (simp add: mult.commute)
  then have ge: "10 ^ w \<le> n div 10"
    by (simp add: less_eq_div_iff_mult_less_eq)
  have "(1 :: nat) \<le> 10 ^ w"
    by simp
  then have "(10 :: nat) \<le> 10 ^ w * 10"
    by linarith
  then have "\<not> n < 10"
    using n by linarith
  then show ?case
    using Suc.IH [OF ge] by (simp add: dec_of_nat.simps [of n])
qed

lemma int_of_digits_zeros: "int_of_digits (replicate k (Ch CHR ''0'') @ ds) = int_of_digits ds"
proof -
  have "foldl (\<lambda>a c. 10 * a + digit_val c) 0 (replicate k (Ch CHR ''0'')) = 0"
    by (induction k) simp_all
  then show ?thesis
    by (simp add: int_of_digits_def)
qed

lemma zero_pad_field:
  assumes "0 \<le> n" "n < 10 ^ w" "0 < w"
  shows "length (zero_pad w (dec_of_int n)) = w" "list_all is_ascii_digit (zero_pad w (dec_of_int n))"
    "int_of_digits (zero_pad w (dec_of_int n)) = n"
proof -
  have d: "dec_of_int n = dec_of_nat (nat n)"
    using assms(1) by (simp add: dec_of_int_def)
  have "nat n < 10 ^ w"
    using assms(1,2) by (simp add: nat_less_iff)
  then have len: "length (dec_of_nat (nat n)) \<le> w"
    using assms(3) by (intro dec_of_nat_width)
  note p = dec_of_nat_digits [of "nat n"]
  show "length (zero_pad w (dec_of_int n)) = w"
    using len by (simp add: zero_pad_def d)
  have "is_ascii_digit (Ch CHR ''0'')"
    by simp
  then show "list_all is_ascii_digit (zero_pad w (dec_of_int n))"
    using p by (auto simp: zero_pad_def d list_all_iff)
  show "int_of_digits (zero_pad w (dec_of_int n)) = n"
    using p assms(1) by (simp add: zero_pad_def d int_of_digits_zeros)
qed

text \<open>
  A year from 1000 to 9999 has four digits of its own, so that the text of \<^verbatim>\<open>%Y\<close>
  is the same whether the C library fills it or not.
\<close>

lemma year_of_four_digits:
  assumes "1000 \<le> y" "y \<le> 9999"
  shows "zero_pad 4 (dec_of_int y) = dec_of_int y"
proof -
  have d: "dec_of_int y = dec_of_nat (nat y)"
    using assms(1) by (simp add: dec_of_int_def)
  have "(10 :: nat) ^ 3 \<le> nat y"
    using assms(1) by simp
  then have "3 < length (dec_of_nat (nat y))"
    by (rule dec_of_nat_least_width)
  then show ?thesis
    by (simp add: zero_pad_def d)
qed

lemma strftime_year:
  assumes "year_padded rt \<or> 1000 \<le> dt_year dt" "dt_year dt \<le> 9999"
  shows "strftime_directive rt dt (Ch CHR ''Y'') = zero_pad 4 (dec_of_int (dt_year dt))"
  using assms year_of_four_digits [of "dt_year dt"] by (auto simp: strftime_directive_def)

lemma strftime_iso:
  assumes "year_padded rt \<or> 1000 \<le> dt_year dt" "dt_year dt \<le> 9999"
  shows "strftime rt dt iso_format =
     zero_pad 4 (dec_of_int (dt_year dt)) @ [Ch CHR ''-''] @ zero_pad 2 (dec_of_int (dt_month dt))
     @ [Ch CHR ''-''] @ zero_pad 2 (dec_of_int (dt_day dt)) @ [Ch CHR ''T'']
     @ zero_pad 2 (dec_of_int (dt_hour dt)) @ [Ch CHR '':''] @ zero_pad 2 (dec_of_int (dt_minute dt))
     @ [Ch CHR '':''] @ zero_pad 2 (dec_of_int (dt_second dt))"
proof -
  have "strftime rt dt iso_format =
     strftime_directive rt dt (Ch CHR ''Y'') @ [Ch CHR ''-''] @ strftime_directive rt dt (Ch CHR ''m'')
     @ [Ch CHR ''-''] @ strftime_directive rt dt (Ch CHR ''d'') @ [Ch CHR ''T'']
     @ strftime_directive rt dt (Ch CHR ''H'') @ [Ch CHR '':''] @ strftime_directive rt dt (Ch CHR ''M'')
     @ [Ch CHR '':''] @ strftime_directive rt dt (Ch CHR ''S'')"
    by (simp add: iso_format_def latin_def)
  also have "\<dots> =
     zero_pad 4 (dec_of_int (dt_year dt)) @ [Ch CHR ''-''] @ zero_pad 2 (dec_of_int (dt_month dt))
     @ [Ch CHR ''-''] @ zero_pad 2 (dec_of_int (dt_day dt)) @ [Ch CHR ''T'']
     @ zero_pad 2 (dec_of_int (dt_hour dt)) @ [Ch CHR '':''] @ zero_pad 2 (dec_of_int (dt_minute dt))
     @ [Ch CHR '':''] @ zero_pad 2 (dec_of_int (dt_second dt))"
    by (simp only: strftime_year [OF assms]) (simp add: strftime_directive_def)
  finally show ?thesis .
qed

lemma list_of_length_2: "length xs = 2 \<Longrightarrow> \<exists>a b. xs = [a, b]"
  by (auto simp: length_Suc_conv numeral_2_eq_2)

lemma list_of_length_4: "length xs = 4 \<Longrightarrow> \<exists>a b c d. xs = [a, b, c, d]"
  by (auto simp: length_Suc_conv numeral_eq_Suc)

lemma iso_text_fields:
  assumes "length Y = 4" "list_all dg Y" "length M = 2" "list_all dg M"
    "length D = 2" "list_all dg D" "length H = 2" "list_all dg H"
    "length N = 2" "list_all dg N" "length S = 2" "list_all dg S"
  defines "stamp \<equiv> Y @ [Ch CHR ''-''] @ M @ [Ch CHR ''-''] @ D @ [Ch CHR ''T''] @ H @ [Ch CHR '':''] @ N
    @ [Ch CHR '':''] @ S"
  shows "match_template dg iso_template stamp" "take 4 stamp = Y" "take 2 (drop 5 stamp) = M"
    "take 2 (drop 8 stamp) = D" "take 2 (drop 11 stamp) = H" "take 2 (drop 14 stamp) = N"
    "take 2 (drop 17 stamp) = S"
proof -
  obtain y1 y2 y3 y4 where Y: "Y = [y1, y2, y3, y4]"
    using list_of_length_4 [OF assms(1)] by blast
  obtain m1 m2 where M: "M = [m1, m2]"
    using list_of_length_2 [OF assms(3)] by blast
  obtain d1 d2 where D: "D = [d1, d2]"
    using list_of_length_2 [OF assms(5)] by blast
  obtain h1 h2 where H: "H = [h1, h2]"
    using list_of_length_2 [OF assms(7)] by blast
  obtain n1 n2 where N: "N = [n1, n2]"
    using list_of_length_2 [OF assms(9)] by blast
  obtain s1 s2 where S: "S = [s1, s2]"
    using list_of_length_2 [OF assms(11)] by blast
  show "match_template dg iso_template stamp"
    using assms(2,4,6,8,10,12) by (simp add: stamp_def Y M D H N S iso_template_def)
  show "take 4 stamp = Y" "take 2 (drop 5 stamp) = M" "take 2 (drop 8 stamp) = D"
    "take 2 (drop 11 stamp) = H" "take 2 (drop 14 stamp) = N" "take 2 (drop 17 stamp) = S"
    by (simp_all add: stamp_def Y M D H N S)
qed

lemma time_of_day:
  fixes sod :: int
  assumes "0 \<le> sod" "sod < 86400"
  shows "0 \<le> sod div 3600" "sod div 3600 \<le> 23" "0 \<le> sod mod 3600 div 60" "sod mod 3600 div 60 \<le> 59"
    "0 \<le> sod mod 60" "sod mod 60 \<le> 59"
    "sod div 3600 * 3600 + sod mod 3600 div 60 * 60 + sod mod 60 = sod"
proof -
  define r where "r = sod mod 3600"
  have r: "0 \<le> r" "r < 3600" "sod = sod div 3600 * 3600 + r"
    by (simp_all add: r_def)
  show "0 \<le> sod div 3600" "sod div 3600 \<le> 23"
    using assms r by linarith+
  have q: "r = r div 60 * 60 + r mod 60" "0 \<le> r mod 60" "r mod 60 < 60"
    by simp_all
  show "0 \<le> sod mod 3600 div 60" "sod mod 3600 div 60 \<le> 59"
    using r(1,2) q unfolding r_def [symmetric] by linarith+
  have "(60 :: int) dvd 3600"
    by simp
  then have m: "sod mod 60 = r mod 60"
    unfolding r_def by (simp add: mod_mod_cancel)
  show "0 \<le> sod mod 60" "sod mod 60 \<le> 59"
    using q(2,3) by (simp_all add: m)
  show "sod div 3600 * 3600 + sod mod 3600 div 60 * 60 + sod mod 60 = sod"
    unfolding m r_def [symmetric] using r(3) q(1) by linarith
qed

lemma strptime_strftime:
  assumes "1 \<le> dt_year (civil_of_seconds L us)" "dt_year (civil_of_seconds L us) \<le> 9999"
    and "year_padded rt \<or> 1000 \<le> dt_year (civil_of_seconds L us)"
  shows "match_template is_ascii_digit iso_template (strftime rt (civil_of_seconds L us) iso_format)"
    and "\<exists>tm. strptime_iso (strftime rt (civil_of_seconds L us) iso_format) = Inr tm \<and> timegm tm = L"
proof -
  define dt where "dt = civil_of_seconds L us"
  define sod where "sod = L mod 86400"
  obtain y m d where ymd: "ord_to_ymd (L div 86400 + epoch_ord) = (y, m, d)"
    by (cases "ord_to_ymd (L div 86400 + epoch_ord)")
  have f: "dt_year dt = y" "dt_month dt = m" "dt_day dt = d" "dt_hour dt = sod div 3600"
    "dt_minute dt = sod mod 3600 div 60" "dt_second dt = sod mod 60"
    by (simp_all add: dt_def civil_of_seconds_def ymd Let_def sod_def)
  have y: "1 \<le> y" "y \<le> 9999"
    using assms(1,2) by (simp_all add: dt_def [symmetric] f)
  have pad: "year_padded rt \<or> 1000 \<le> dt_year dt" "dt_year dt \<le> 9999"
    using assms(2,3) by (simp_all add: dt_def)
  note cal = ord_to_ymd_correct [OF ymd]
  have dim: "days_in_month y m \<le> 31"
    by (simp add: days_in_month_def)
  have sod: "0 \<le> sod" "sod < 86400"
    by (simp_all add: sod_def)
  note tod = time_of_day [OF sod]
  define Y where "Y = zero_pad 4 (dec_of_int y)"
  define M where "M = zero_pad 2 (dec_of_int m)"
  define D where "D = zero_pad 2 (dec_of_int d)"
  define H where "H = zero_pad 2 (dec_of_int (sod div 3600))"
  define N where "N = zero_pad 2 (dec_of_int (sod mod 3600 div 60))"
  define S where "S = zero_pad 2 (dec_of_int (sod mod 60))"
  have pY: "length Y = 4" "list_all is_ascii_digit Y" "int_of_digits Y = y"
    unfolding Y_def using y by (intro zero_pad_field; simp)+
  have pM: "length M = 2" "list_all is_ascii_digit M" "int_of_digits M = m"
    unfolding M_def using cal by (intro zero_pad_field; simp)+
  have pD: "length D = 2" "list_all is_ascii_digit D" "int_of_digits D = d"
    unfolding D_def using cal dim by (intro zero_pad_field; simp)+
  have pH: "length H = 2" "list_all is_ascii_digit H" "int_of_digits H = sod div 3600"
    unfolding H_def using tod(1,2) by (intro zero_pad_field; simp)+
  have pN: "length N = 2" "list_all is_ascii_digit N" "int_of_digits N = sod mod 3600 div 60"
    unfolding N_def using tod(3,4) by (intro zero_pad_field; simp)+
  have pS: "length S = 2" "list_all is_ascii_digit S" "int_of_digits S = sod mod 60"
    unfolding S_def using tod(5,6) by (intro zero_pad_field; simp)+
  define stamp where "stamp = Y @ [Ch CHR ''-''] @ M @ [Ch CHR ''-''] @ D @ [Ch CHR ''T''] @ H
    @ [Ch CHR '':''] @ N @ [Ch CHR '':''] @ S"
  have stamp: "strftime rt dt iso_format = stamp"
    by (simp only: strftime_iso [OF pad] f stamp_def Y_def M_def D_def H_def N_def S_def)
  note t = iso_text_fields [OF pY(1,2) pM(1,2) pD(1,2) pH(1,2) pN(1,2) pS(1,2), folded stamp_def]
  show "match_template is_ascii_digit iso_template (strftime rt (civil_of_seconds L us) iso_format)"
    using t(1) by (simp only: dt_def [symmetric] stamp)
  define tm where "tm = \<lparr>tm_year = y, tm_mon = m, tm_mday = d, tm_hour = sod div 3600,
    tm_min = sod mod 3600 div 60, tm_sec = sod mod 60\<rparr>"
  have "date_time_valid stamp"
    using y cal tod(2,4,6)
    by (simp add: date_time_valid_def Let_def t(2-7) pY(3) pM(3) pD(3) pH(3) pN(3) pS(3))
  then have "strptime_iso stamp = Inr tm"
    by (simp add: strptime_iso_ascii [OF t(1)] t(2-7) pY(3) pM(3) pD(3) pH(3) pN(3) pS(3) tm_def)
  moreover have "timegm tm = L"
  proof -
    have "ymd_to_ord y m 1 - epoch_ord + d - 1 = L div 86400"
      using cal by (simp add: ymd_to_ord_def)
    then have "timegm tm = L div 86400 * 86400 + (sod div 3600 * 3600 + sod mod 3600 div 60 * 60 + sod mod 60)"
      by (simp add: timegm_def Let_def tm_def)
    also have "\<dots> = L div 86400 * 86400 + sod"
      by (simp only: tod(7))
    also have "\<dots> = L"
      by (simp add: sod_def)
    finally show ?thesis .
  qed
  ultimately show "\<exists>tm. strptime_iso (strftime rt (civil_of_seconds L us) iso_format) = Inr tm \<and> timegm tm = L"
    by (auto simp only: dt_def [symmetric] stamp)
qed

section \<open>Adding zero to an integer float\<close>

lemma round_pos_canonical:
  assumes "0 < n" "n < 2 ^ 53"
  defines "k \<equiv> nat (53 - bitlen n)"
  shows "round_pos (n * 2 ^ k) (2 ^ k) = Some (n * 2 ^ k, bitlen n - 53)"
proof -
  have b: "1 \<le> bitlen n" "bitlen n \<le> 53"
    using bitlen_le_53 [OF assms(1,2)] by simp_all
  have k: "int k = 53 - bitlen n"
    using b by (simp add: k_def)
  have low: "2 ^ nat (bitlen n - 1) \<le> n" and up: "n < 2 ^ nat (bitlen n)"
    using bitlen_bounds [OF assms(1)] by simp_all
  have bM: "bitlen (n * 2 ^ k) = 53"
    using assms(1) k by simp
  have bD: "bitlen (2 ^ k) = 1 + int k"
    using bitlen_pow2 [of 1 k] by (simp add: bitlen_one)
  have "(2::int) ^ k * 2 ^ nat (bitlen n - 1) = 2 ^ (k + nat (bitlen n - 1))"
    by (simp add: power_add)
  also have "k + nat (bitlen n - 1) = 52"
    using b k by linarith
  finally have p52: "(2::int) ^ k * 2 ^ nat (bitlen n - 1) = 2 ^ 52" .
  have "(2::int) ^ k * 2 ^ nat (bitlen n - 1) \<le> 2 ^ k * n"
    using low by (intro mult_left_mono) simp_all
  then have c: "2 ^ k * 2 ^ nat (bitlen n - 1) \<le> n * 2 ^ k"
    by (simp add: mult.commute)
  have d: "bitlen (n * 2 ^ k) - bitlen (2 ^ k) = bitlen n - 1"
    using k by (simp add: bM bD)
  have il: "ilog2_frac (n * 2 ^ k) (2 ^ k) = bitlen n - 1"
    using b(1) c by (simp add: ilog2_frac_def Let_def d)
  have e0: "max (- 1074) (ilog2_frac (n * 2 ^ k) (2 ^ k) - 52) = bitlen n - 53"
    using b by (simp add: il)
  have kk: "nat (- (bitlen n - 53)) = k"
    by (simp add: k_def)
  have "rne_div (n * 2 ^ k * 2 ^ k) (2 ^ k) = rne_div (2 ^ k * (n * 2 ^ k)) (2 ^ k * 1)"
    by (simp add: mult.commute)
  also have "\<dots> = rne_div (n * 2 ^ k) 1"
    by (rule rne_div_scale) simp
  finally have m: "rne_div (n * 2 ^ k * 2 ^ k) (2 ^ k) = n * 2 ^ k"
    by (simp add: rne_div_one)
  have "n * 2 ^ k < 2 ^ nat (bitlen n) * 2 ^ k"
    using up by simp
  also have "\<dots> = 2 ^ (nat (bitlen n) + k)"
    by (simp add: power_add)
  also have "nat (bitlen n) + k = 53"
    using b k by linarith
  finally have lt: "n * 2 ^ k < 2 ^ 53" .
  show ?thesis
    unfolding round_pos_def e0 Let_def kk
    using b(2) lt by (simp add: m)
qed

lemma float_of_int_fadd_zero:
  assumes "\<bar>i\<bar> < 2 ^ 53" "float_of_int i = Inr x"
  shows "fadd x (Fin 0 0) = x"
proof (cases "i = 0")
  case True
  then show ?thesis
    using assms(2) by (auto simp: float_of_int_def round_frac_def round_scaled_def)
next
  case False
  then have pos: "0 < \<bar>i\<bar>"
    by simp
  define b where "b = bitlen \<bar>i\<bar>"
  define k where "k = nat (53 - b)"
  define M where "M = \<bar>i\<bar> * 2 ^ k"
  have b: "1 \<le> b" "b \<le> 53"
    using bitlen_le_53 [OF pos assms(1)] by (simp_all add: b_def)
  have x: "x = Fin (sgn i * M) (b - 53)"
    using assms(2) False round_pos_int_exact [OF pos assms(1)]
    by (simp add: float_of_int_def round_frac_def b_def k_def M_def)
  have Mpos: "0 < M"
    using pos by (simp add: M_def)
  have sM: "sgn i * M \<noteq> 0" "\<bar>sgn i * M\<bar> = M" "sgn (sgn i * M) = sgn i"
    using False Mpos by (simp_all add: abs_mult sgn_mult sgn_if)
  have can: "round_pos M (2 ^ k) = Some (M, b - 53)"
    unfolding M_def k_def b_def by (rule round_pos_canonical [OF pos assms(1)])
  show ?thesis
  proof (cases "b = 53")
    case True
    then have "k = 0"
      by (simp add: k_def)
    then show ?thesis
      using can sM True by (simp add: x round_scaled_def round_frac_def)
  next
    case False
    then have "nat (- (b - 53)) = k" "\<not> 0 \<le> b - 53"
      using b by (simp_all add: k_def)
    then show ?thesis
      using can sM by (simp add: x round_scaled_def round_frac_def)
  qed
qed

section \<open>Formatting, then parsing\<close>

lemma fromtimestamp_Inr:
  assumes "timestamp_split t = Inr (sec, us)" "fromtimestamp rt t = Inr dt"
  shows "dt = civil_of_seconds (sec + utcoffset rt sec) us" "1 \<le> dt_year dt" "dt_year dt \<le> 9999"
  using assms by (auto simp: fromtimestamp_def Let_def split: if_splits)

lemma timestamp_split_seconds:
  assumes "timestamp_split (PyFloat x) = Inr (sec, us)"
  shows "\<exists>ip. int_of_float x = Inr ip \<and> \<bar>sec - ip\<bar> \<le> 1"
proof (cases x)
  case (Fin m e)
  then show ?thesis
    using assms by (auto simp: timestamp_split_def Let_def split: if_splits)
qed (use assms in \<open>simp_all add: timestamp_split_def\<close>)

lemma fraction_zero: "float_of_fraction (latin ''.0'') = Fin 0 0"
  by (simp add: float_of_fraction_def float_of_decimal_def round_frac_def int_of_digits_def latin_def)

lemma float_of_int_zero: "float_of_int 0 = Inr (Fin 0 0)"
  by (simp add: float_of_int_def round_frac_def)

text \<open>
  C2, as the code has it. For every float \<open>x\<close> that \<^verbatim>\<open>strfTime\<close> converts to a date
  of the year 1000 or later in the home zone (or of any year, where the C library
  fills \<^verbatim>\<open>%Y\<close> to four digits), with \<open>sec\<close> the whole seconds of \<open>x\<close> once rounded to
  microseconds (at most 1 away from \<open>x\<close> truncated), the default pattern gives the
  19 characters of the wall clock of the home zone: \<^verbatim>\<open>time.strptime\<close> accepts them,
  \<^verbatim>\<open>calendar.timegm\<close> reads them as \<open>sec\<close> plus the offset of the zone at \<open>sec\<close>, and
  \<^verbatim>\<open>strpSecs\<close> of the text followed by \<^verbatim>\<open>.0Z\<close> returns that sum as a float.
\<close>

theorem strfTime_strpSecs_roundtrip:
  assumes "timestamp_split (PyFloat x) = Inr (sec, us)" and "fromtimestamp rt (PyFloat x) = Inr dt"
    and "year_padded rt \<or> 1000 \<le> dt_year dt"
  shows "\<exists>stamp tm y ip.
      strfTime rt (PyFloat x) iso_format False = Inr stamp
      \<and> match_template is_ascii_digit iso_template stamp
      \<and> strptime_iso stamp = Inr tm \<and> timegm tm = sec + utcoffset rt sec
      \<and> float_of_int (sec + utcoffset rt sec) = Inr y \<and> valof y = of_int (sec + utcoffset rt sec)
      \<and> strpSecs (stamp @ latin ''.0Z'') = Inr (PyFloat y)
      \<and> int_of_float x = Inr ip \<and> \<bar>sec - ip\<bar> \<le> 1"
proof -
  define L where "L = sec + utcoffset rt sec"
  note d = fromtimestamp_Inr [OF assms(1,2), folded L_def]
  define stamp where "stamp = strftime rt dt iso_format"
  have s: "strfTime rt (PyFloat x) iso_format False = Inr stamp"
    by (simp only: strfTime_float [OF assms(2)] strfTime_format_plain stamp_def)
  have yr: "1 \<le> dt_year (civil_of_seconds L us)" "dt_year (civil_of_seconds L us) \<le> 9999"
    "year_padded rt \<or> 1000 \<le> dt_year (civil_of_seconds L us)"
    using d(2,3) assms(3) unfolding d(1) by simp_all
  have m: "match_template is_ascii_digit iso_template stamp"
    unfolding stamp_def d(1) by (rule strptime_strftime(1) [OF yr])
  obtain tm where tm: "strptime_iso stamp = Inr tm" "timegm tm = L"
    using strptime_strftime(2) [OF yr] unfolding d(1) stamp_def by blast
  have small: "\<bar>L\<bar> < 2 ^ 53"
    using timegm_bounds [OF tm(1)] by (simp add: tm(2))
  obtain mm ee where y: "float_of_int L = Inr (Fin mm ee)" "valof (Fin mm ee) = of_int L"
    using float_of_int_exact [OF small] by blast
  have z: "fadd (Fin mm ee) (Fin 0 0) = Fin mm ee"
    by (rule float_of_int_fadd_zero [OF small y(1)])
  have fm: "fullmatch_iso (stamp @ Ch CHR ''.'' # [Ch CHR ''0''] @ latin ''Z'')
      = Some (stamp, Ch CHR ''.'' # [Ch CHR ''0''], latin ''Z'')"
    by (rule fullmatch_iso_groups [OF match_template_ascii [OF m]]) (simp_all add: latin_def)
  have g2: "Ch CHR ''.'' # [Ch CHR ''0''] \<noteq> []"
    by simp
  have zero: "\<bar>0 :: int\<bar> < 2 ^ 53"
    by simp
  have cat: "stamp @ Ch CHR ''.'' # [Ch CHR ''0''] @ latin ''Z'' = stamp @ latin ''.0Z''"
    "Ch CHR ''.'' # [Ch CHR ''0''] = latin ''.0''"
    by (simp_all add: latin_def)
  from strpSecs_accepts [OF fm g2 zone_offset_Z zero tm(1)]
  have "strpSecs (stamp @ latin ''.0Z'')
      = Inr (PyFloat (fadd (fadd (Fin mm ee) (float_of_fraction (latin ''.0''))) (Fin 0 0)))"
    using y(1) unfolding cat by (auto simp: tm(2) float_of_int_zero)
  then have "strpSecs (stamp @ latin ''.0Z'') = Inr (PyFloat (fadd (fadd (Fin mm ee) (Fin 0 0)) (Fin 0 0)))"
    by (simp only: fraction_zero)
  then have p: "strpSecs (stamp @ latin ''.0Z'') = Inr (PyFloat (Fin mm ee))"
    by (simp only: z)
  obtain ip where ip: "int_of_float x = Inr ip" "\<bar>sec - ip\<bar> \<le> 1"
    using timestamp_split_seconds [OF assms(1)] by blast
  show ?thesis
    using s m tm y p ip unfolding L_def by blast
qed

text \<open>The instance: 1700000000.5 in Eastern Standard Time.\<close>

lemma float_half: "float_of_decimal 17000000005 1 = Fin 7130316802097152 (- 22)"
  by (simp add: float_eval)

lemma split_half: "timestamp_split (PyFloat (Fin 7130316802097152 (- 22))) = Inr (1700000000, 500000)"
  by (simp add: timestamp_split_def float_eval)

lemma from_half:
  "fromtimestamp example_runtime (PyFloat (Fin 7130316802097152 (- 22)))
    = Inr \<lparr>dt_year = 2023, dt_month = 11, dt_day = 14, dt_hour = 17, dt_minute = 13,
        dt_second = 20, dt_microsecond = 500000\<rparr>"
  by (simp add: fromtimestamp_def split_half civil_1700000000 example_runtime_def)
     (simp add: civil_eval Let_def)

lemma strfTime_half:
  "strfTime example_runtime (PyFloat (Fin 7130316802097152 (- 22))) iso_format False
    = Inr (latin ''2023-11-14T17:13:20'')"
  by (simp only: strfTime_float [OF from_half] strfTime_format_plain strftime_2023)

lemma strpSecs_local_stamp:
  "strpSecs (latin ''2023-11-14T17:13:20Z'') = Inl ValueError"
  "strpSecs (latin ''2023-11-14T17:13:20.0Z'') = Inr (PyFloat (float_of_decimal 1699982000 0))"
  by (simp_all add: strpSecs_eval text_eval float_eval)

lemma trunc_half: "int_of_float (Fin 7130316802097152 (- 22)) = Inr 1700000000"
  by simp

lemma half_example:
  "timestamp_split (PyFloat (float_of_decimal 17000000005 1)) = Inr (1700000000, 500000)"
  "fromtimestamp example_runtime (PyFloat (float_of_decimal 17000000005 1))
    = Inr \<lparr>dt_year = 2023, dt_month = 11, dt_day = 14, dt_hour = 17, dt_minute = 13,
        dt_second = 20, dt_microsecond = 500000\<rparr>"
  "strfTime example_runtime (PyFloat (float_of_decimal 17000000005 1)) iso_format False
    = Inr (latin ''2023-11-14T17:13:20'')"
  "int_of_float (float_of_decimal 17000000005 1) = Inr 1700000000"
  by (simp_all only: float_half split_half from_half strfTime_half trunc_half)

lemma floats_differ: "float_of_decimal 1699982000 0 \<noteq> float_of_decimal 1700000000 0"
  by (simp add: float_eval)

lemma latin_append: "latin a @ latin b = latin (a @ b)"
  by (simp add: latin_def)

theorem strfTime_strpSecs_roundtrip_witness:
  "timestamp_split (PyFloat (float_of_decimal 17000000005 1)) = Inr (1700000000, 500000)
   \<and> fromtimestamp example_runtime (PyFloat (float_of_decimal 17000000005 1))
       = Inr \<lparr>dt_year = 2023, dt_month = 11, dt_day = 14, dt_hour = 17, dt_minute = 13,
           dt_second = 20, dt_microsecond = 500000\<rparr>
   \<and> (year_padded example_runtime \<or> (1000 :: int) \<le> 2023)
   \<and> strfTime example_runtime (PyFloat (float_of_decimal 17000000005 1)) iso_format False
       = Inr (latin ''2023-11-14T17:13:20'')
   \<and> utcoffset example_runtime 1700000000 = - 18000
   \<and> strpSecs (latin ''2023-11-14T17:13:20.0Z'') = Inr (PyFloat (float_of_decimal 1699982000 0))"
  using strfTime_strpSecs_roundtrip [of "float_of_decimal 17000000005 1" 1700000000 500000 example_runtime
      "\<lparr>dt_year = 2023, dt_month = 11, dt_day = 14, dt_hour = 17, dt_minute = 13,
           dt_second = 20, dt_microsecond = 500000\<rparr>"]
    half_example strpSecs_local_stamp(2)
  by (simp add: example_runtime_def)

text \<open>The year 702, as the GNU C library writes it: - 40000000000.0 in Eastern Standard Time.\<close>

lemma float_702: "float_of_decimal (- 40000000000) 0 = Fin (- 5242880000000000) (- 17)"
  by (simp add: float_eval)

lemma split_702: "timestamp_split (PyFloat (Fin (- 5242880000000000) (- 17))) = Inr (- 40000000000, 0)"
  by (simp add: timestamp_split_def float_eval)

lemma civil_702: "dt_year (civil_of_seconds (- 40000000000) us) = 702"
  by (simp add: civil_eval Let_def)

lemma from_702:
  "fromtimestamp example_runtime (PyFloat (Fin (- 5242880000000000) (- 17)))
    = Inr \<lparr>dt_year = 702, dt_month = 6, dt_day = 14, dt_hour = 19, dt_minute = 53,
        dt_second = 20, dt_microsecond = 0\<rparr>"
  by (simp add: fromtimestamp_def split_702 civil_702 example_runtime_def)
     (simp add: civil_eval Let_def)

lemma strftime_702:
  "strftime example_runtime \<lparr>dt_year = 702, dt_month = 6, dt_day = 14, dt_hour = 19, dt_minute = 53,
        dt_second = 20, dt_microsecond = 0\<rparr> iso_format = latin ''702-06-14T19:53:20''"
  by (simp add: strftime_eval example_runtime_def)

lemma strfTime_702:
  "strfTime example_runtime (PyFloat (float_of_decimal (- 40000000000) 0)) iso_format False
    = Inr (latin ''702-06-14T19:53:20'')"
  by (simp only: float_702 strfTime_float [OF from_702] strfTime_format_plain strftime_702)

lemma strpSecs_702: "strpSecs (latin ''702-06-14T19:53:20.0Z'') = Inl ValueError"
  by (simp add: strpSecs_def text_eval)

text \<open>
  The claim as the specification words it fails: for 1700000000.5 the text is
  \<^verbatim>\<open>2023-11-14T17:13:20\<close>; followed by \<^verbatim>\<open>Z\<close> it is refused, for want of a
  fraction; and followed by \<^verbatim>\<open>.0Z\<close> it is read as 1699982000.0, not as the
  1700000000.0 that the truncation of the instant is. And for - 40000000000.0 the
  text that the GNU C library gives has the 18 characters \<^verbatim>\<open>702-06-14T19:53:20\<close>,
  which \<^verbatim>\<open>strpSecs\<close> refuses with a fraction and a zone too.
\<close>

theorem strfTime_strpSecs_roundtrip_counterexample:
  "strfTime example_runtime (PyFloat (float_of_decimal 17000000005 1)) iso_format False
     = Inr (latin ''2023-11-14T17:13:20'')
   \<and> strpSecs (latin ''2023-11-14T17:13:20'' @ latin ''Z'') = Inl ValueError
   \<and> int_of_float (float_of_decimal 17000000005 1) = Inr 1700000000
   \<and> strpSecs (latin ''2023-11-14T17:13:20'' @ latin ''.0Z'') = Inr (PyFloat (float_of_decimal 1699982000 0))
   \<and> float_of_decimal 1699982000 0 \<noteq> float_of_decimal 1700000000 0
   \<and> strfTime example_runtime (PyFloat (float_of_decimal (- 40000000000) 0)) iso_format False
     = Inr (latin ''702-06-14T19:53:20'')
   \<and> strpSecs (latin ''702-06-14T19:53:20'' @ latin ''.0Z'') = Inl ValueError"
  using half_example strpSecs_local_stamp floats_differ strfTime_702 strpSecs_702
  by (simp add: latin_append)


end
